theory Spec2Isabelle
  imports Complex_Main
begin

section \<open>The canvas platform\<close>

text \<open>
  The editor keeps every bitmap in an HTML canvas and reads or writes pixels only through
  the Canvas 2D interface. A canvas is modelled by its backing store as \<open>getImageData\<close>
  returns it: width, height and the row-major RGBA bytes. The part of the interface that
  the editor calls (\<open>drawImage\<close>, \<open>fillRect\<close>, \<open>clearRect\<close> under a
  \<open>globalCompositeOperation\<close>) is written out after the HTML standard: Porter-Duff
  operators on 8-bit channels. The standard leaves the rounding of partially transparent
  results to the implementation; the integer division below is one choice. The general
  properties proved later constrain masks to alpha 0 or 255, where no rounding takes place.
\<close>

datatype pixel = RGBA (red: nat) (green: nat) (blue: nat) (alpha: nat)

definition transparent :: pixel where
  "transparent = RGBA 0 0 0 0"

definition white :: pixel where
  "white = RGBA 255 255 255 255"

definition black :: pixel where
  "black = RGBA 0 0 0 255"

record canvas =
  width :: nat
  height :: nat
  data :: "nat list"

definition getPixel :: "canvas \<Rightarrow> nat \<Rightarrow> nat \<Rightarrow> pixel" where
  "getPixel c x y =
     (if x < width c \<and> y < height c
      then (let i = 4 * (y * width c + x)
            in RGBA (data c ! i) (data c ! (i + 1)) (data c ! (i + 2)) (data c ! (i + 3)))
      else transparent)"

definition pixelBytes :: "pixel \<Rightarrow> nat list" where
  "pixelBytes p = [red p, green p, blue p, alpha p]"

definition mkCanvas :: "nat \<Rightarrow> nat \<Rightarrow> (nat \<Rightarrow> nat \<Rightarrow> pixel) \<Rightarrow> canvas" where
  "mkCanvas w h f =
     \<lparr>width = w, height = h,
      data = concat (map (\<lambda>k. pixelBytes (f (k mod w) (k div w))) [0..<w * h])\<rparr>"

text \<open>\<open>document.createElement('canvas')\<close> with its width and height set: all transparent.\<close>

definition createCanvas :: "nat \<Rightarrow> nat \<Rightarrow> canvas" where
  "createCanvas w h = mkCanvas w h (\<lambda>x y. transparent)"

datatype compositeOperation = SourceOver | DestinationIn | SourceIn | DestinationOut

definition source_over :: "pixel \<Rightarrow> pixel \<Rightarrow> pixel" where
  "source_over s d =
     (let ao = alpha s + alpha d * (255 - alpha s) div 255
      in if ao = 0 then transparent
         else RGBA ((red s * alpha s * 255 + red d * alpha d * (255 - alpha s)) div (255 * ao))
                   ((green s * alpha s * 255 + green d * alpha d * (255 - alpha s)) div (255 * ao))
                   ((blue s * alpha s * 255 + blue d * alpha d * (255 - alpha s)) div (255 * ao))
                   ao)"

definition destination_in :: "pixel \<Rightarrow> pixel \<Rightarrow> pixel" where
  "destination_in s d =
     (let ao = alpha d * alpha s div 255
      in if ao = 0 then transparent else RGBA (red d) (green d) (blue d) ao)"

definition source_in :: "pixel \<Rightarrow> pixel \<Rightarrow> pixel" where
  "source_in s d =
     (let ao = alpha s * alpha d div 255
      in if ao = 0 then transparent else RGBA (red s) (green s) (blue s) ao)"

definition destination_out :: "pixel \<Rightarrow> pixel \<Rightarrow> pixel" where
  "destination_out s d =
     (let ao = alpha d * (255 - alpha s) div 255
      in if ao = 0 then transparent else RGBA (red d) (green d) (blue d) ao)"

fun composite :: "compositeOperation \<Rightarrow> pixel \<Rightarrow> pixel \<Rightarrow> pixel" where
  "composite SourceOver s d = source_over s d"
| "composite DestinationIn s d = destination_in s d"
| "composite SourceIn s d = source_in s d"
| "composite DestinationOut s d = destination_out s d"

text \<open>
  \<open>ctx.drawImage(src, 0, 0)\<close> and \<open>ctx.fillRect(0, 0, width, height)\<close> under the
  current composite operation; the first argument is the composite operation of the
  context at the time of the call. Outside the source's bounds the source is transparent.
\<close>

definition drawImage :: "compositeOperation \<Rightarrow> canvas \<Rightarrow> canvas \<Rightarrow> canvas" where
  "drawImage gco src dst =
     mkCanvas (width dst) (height dst) (\<lambda>x y. composite gco (getPixel src x y) (getPixel dst x y))"

definition fillRect :: "compositeOperation \<Rightarrow> pixel \<Rightarrow> canvas \<Rightarrow> canvas" where
  "fillRect gco fillStyle dst =
     mkCanvas (width dst) (height dst) (\<lambda>x y. composite gco fillStyle (getPixel dst x y))"

definition clearRect :: "canvas \<Rightarrow> canvas" where
  "clearRect c = createCanvas (width c) (height c)"

text \<open>
  The fill style \<open>rgb(id,id,id)\<close>: an opaque grey. A CSS colour component is an 8-bit
  value; \<open>rgb()\<close> clamps a larger number to 255.
\<close>

definition rgbStyle :: "nat \<Rightarrow> pixel" where
  "rgbStyle n = RGBA (min n 255) (min n 255) (min n 255) 255"

text \<open>
  \<open>getImageData(0, 0, width, height)\<close> and \<open>putImageData(d, 0, 0)\<close> on a canvas of
  exactly that size (every mask canvas is created with the image's dimensions).
\<close>

definition getImageData :: "canvas \<Rightarrow> nat list" where
  "getImageData c = data c"

definition putImageData :: "nat list \<Rightarrow> canvas \<Rightarrow> canvas" where
  "putImageData d c = c\<lparr>data := d\<rparr>"

text \<open>
  \<open>canvas.toDataURL()\<close> yields a PNG data URL, a lossless encoding of the bitmap; the
  URL is represented by the bitmap it decodes to. The empty string is a separate value.
\<close>

datatype dataUrl = EmptyUrl | PngUrl canvas

definition toDataURL :: "canvas \<Rightarrow> dataUrl" where
  "toDataURL c = PngUrl c"


section \<open>Numbers\<close>

text \<open>
  A JavaScript number is an IEEE 754 binary64 value. A finite one is a real number, and an
  arithmetic operation returns the double nearest to the exact result, a tie going to the
  even significand. \<open>toDouble\<close> is that rounding: \<open>exponent x\<close> is the binary exponent
  of \<open>x\<close> (at least \<open>-1022\<close>, where the subnormal numbers start), and a double of that
  exponent is a multiple of \<open>2\<close> to the power \<open>exponent x - 52\<close>. The infinities and
  NaN are not represented: the quantities below stay far inside the range of the finite
  doubles (a tolerance and a zoom factor set by the controls of the application, pointer
  positions on a screen).
\<close>

definition pow2 :: "int \<Rightarrow> real" where
  "pow2 e = (if 0 \<le> e then 2 ^ nat e else 1 / 2 ^ nat (- e))"

definition roundTiesToEven :: "real \<Rightarrow> int" where
  "roundTiesToEven x =
     (let f = \<lfloor>x\<rfloor>; r = x - of_int f
      in if r < 1 / 2 then f else if 1 / 2 < r then f + 1 else if even f then f else f + 1)"

fun exponentFrom :: "nat \<Rightarrow> real \<Rightarrow> int" where
  "exponentFrom 0 x = - 1022"
| "exponentFrom (Suc n) x =
     (if pow2 (int n - 1021) \<le> x then int n - 1021 else exponentFrom n x)"

definition exponent :: "real \<Rightarrow> int" where
  "exponent x = exponentFrom 2045 \<bar>x\<bar>"

definition toDouble :: "real \<Rightarrow> real" where
  "toDouble x = (let q = pow2 (exponent x - 52) in of_int (roundTiesToEven (x / q)) * q)"

text \<open>
  The operators \<open>*\<close>, \<open>/\<close>, \<open>+\<close>, \<open>-\<close> on numbers, \<open>Math.sqrt\<close>, and
  \<open>Math.pow(x, 2)\<close>, which the engines compute as \<open>x * x\<close>. A decimal literal such as
  \<open>2.55\<close> denotes the double nearest to it, \<open>toDouble 2.55\<close>.
\<close>

definition mulD :: "real \<Rightarrow> real \<Rightarrow> real" where
  "mulD a b = toDouble (a * b)"


definition addD :: "real \<Rightarrow> real \<Rightarrow> real" where
  "addD a b = toDouble (a + b)"





section \<open>Data model (types.ts, App.tsx)\<close>

record layer =
  layer_id :: string
  name :: string
  color :: string
  isVisible :: bool
  isLocked :: bool

text \<open>
  A \<open>MaskState\<close> is a JavaScript object from layer ids to data URLs. React compares the
  dependencies of an effect by identity, so the model keeps one: \<open>ident\<close> numbers the
  objects in the order of their creation.
\<close>

record maskState =
  ident :: nat
  entries :: "string \<Rightarrow> dataUrl option"

type_synonym point = "real \<times> real"

record historyItem =
  layers_item :: "layer list"
  masks_item :: maskState

datatype toolType = BRUSH | ERASER | PAN | POLYGON | MAGIC_WAND

datatype exportMode = Rgba | Training_mask | Instance | White_bg

text \<open>
  The state of the application: the React state and refs of \<open>App\<close> followed by those
  of \<open>CanvasEditor\<close>, which receives the former as props. A handler created in a render
  reads the values of that render (the record it is applied to). React applies a value
  passed to a state setter, and calls a function passed to one, when it renders next, after
  the handler has returned; a write to a ref takes place at once. After the render React
  runs the effects whose dependencies have changed (\<open>commitEffects\<close> below).

  Beyond the fields of the source the record holds what the platform keeps for it:
  \<open>allocated\<close>, the number of \<open>MaskState\<close> objects created so far;
  \<open>maskGCO\<close>, the \<open>globalCompositeOperation\<close> of the 2D context of each mask canvas
  (\<open>source-over\<close> on a new canvas); \<open>restorationDeps\<close>, the identity of
  \<open>restoredMasks\<close> when the restoration effect ran last; \<open>keyDeps\<close> and
  \<open>keyActiveLayerId\<close>, the dependencies of the effect that installs the keyboard
  listener when it ran last and the \<open>activeLayerId\<close> of that render, which the
  listener's \<open>handleUndo\<close> and \<open>handleRedo\<close> read.
\<close>

record state =
  imageSrc :: "string option"
  layers :: "layer list"
  activeLayerId :: string
  historyPast :: "historyItem list"
  historyFuture :: "historyItem list"
  currentMasks :: maskState
  restoredMasks :: "maskState option"
  tool :: toolType
  brushSize :: real
  tolerance :: real
  zoom :: real
  imageRef :: "canvas option"
  dimensions_width :: nat
  dimensions_height :: nat
  maskCanvases :: "string \<Rightarrow> canvas option"
  sourceImageData :: "nat list option"
  isDrawing :: bool
  lastPoint :: "point option"
  pan :: point
  isPanning :: bool
  panStart :: "point option"
  polyPoints :: "point list"
  allocated :: nat
  maskGCO :: "string \<Rightarrow> compositeOperation"
  restorationDeps :: "nat option"
  keyDeps :: "historyItem list \<times> historyItem list \<times> layer list"
  keyActiveLayerId :: string


section \<open>History and layer handlers (App.tsx)\<close>

definition pushToHistory :: "layer list \<Rightarrow> maskState \<Rightarrow> state \<Rightarrow> state" where
  "pushToHistory newLayers newMasks s =
     s\<lparr>historyPast := historyPast s @ [\<lparr>layers_item = newLayers, masks_item = newMasks\<rparr>],
       historyFuture := []\<rparr>"

definition handleSnapshot :: "maskState \<Rightarrow> state \<Rightarrow> state" where
  "handleSnapshot newMasks s =
     (pushToHistory (layers s) (currentMasks s) s)\<lparr>currentMasks := newMasks\<rparr>"

text \<open>\<open>ls[0]?.id || 'fg'\<close>: the empty list and the empty string both give \<open>'fg'\<close>.\<close>

definition firstLayerId :: "layer list \<Rightarrow> string" where
  "firstLayerId ls =
     (case ls of [] \<Rightarrow> ''fg''
      | l # rest \<Rightarrow> (if layer_id l = [] then ''fg'' else layer_id l))"

text \<open>
  \<open>handleUndo\<close> and \<open>handleRedo\<close> as created in a render whose \<open>activeLayerId\<close>
  was \<open>activeLayerId'\<close>. The function passed to \<open>setHistoryFuture\<close> (in
  \<open>handleRedo\<close>: to \<open>setHistoryPast\<close>) is called at the next render: the
  \<open>currentMasksRef.current\<close> it reads is the one the handler has written by then, and
  \<open>layers\<close> is the constant of the handler's render.
\<close>

definition handleUndoIn :: "string \<Rightarrow> state \<Rightarrow> state" where
  "handleUndoIn activeLayerId' s =
     (if length (historyPast s) = 0 then s
      else
        (let previousState = last (historyPast s);
             newPast = butlast (historyPast s);
             s1 = s\<lparr>layers := layers_item previousState,
                    currentMasks := masks_item previousState,
                    restoredMasks := Some (masks_item previousState),
                    historyPast := newPast,
                    activeLayerId :=
                      (if find (\<lambda>l. layer_id l = activeLayerId') (layers_item previousState) = None
                       then firstLayerId (layers_item previousState)
                       else activeLayerId s)\<rparr>
         in s1\<lparr>historyFuture :=
                  \<lparr>layers_item = layers s, masks_item = currentMasks s1\<rparr> # historyFuture s\<rparr>))"

definition handleRedoIn :: "string \<Rightarrow> state \<Rightarrow> state" where
  "handleRedoIn activeLayerId' s =
     (if length (historyFuture s) = 0 then s
      else
        (let nextState = historyFuture s ! 0;
             newFuture = drop 1 (historyFuture s);
             s1 = s\<lparr>layers := layers_item nextState,
                    currentMasks := masks_item nextState,
                    restoredMasks := Some (masks_item nextState),
                    historyFuture := newFuture,
                    activeLayerId :=
                      (if find (\<lambda>l. layer_id l = activeLayerId') (layers_item nextState) = None
                       then firstLayerId (layers_item nextState)
                       else activeLayerId s)\<rparr>
         in s1\<lparr>historyPast :=
                  historyPast s @ [\<lparr>layers_item = layers s, masks_item = currentMasks s1\<rparr>]\<rparr>))"

text \<open>The undo and redo buttons call the handlers of the current render.\<close>

definition handleUndo :: "state \<Rightarrow> state" where
  "handleUndo s = handleUndoIn (activeLayerId s) s"

definition handleRedo :: "state \<Rightarrow> state" where
  "handleRedo s = handleRedoIn (activeLayerId s) s"

text \<open>
  The keyboard listener. It is installed by an effect with the dependencies
  \<open>[historyPast, historyFuture, layers]\<close> and calls the handlers of the render in
  which that effect ran last.
\<close>

record keyboardEvent =
  ctrlKey :: bool
  metaKey :: bool
  shiftKey :: bool
  key :: string

definition handleKeyDown :: "keyboardEvent \<Rightarrow> state \<Rightarrow> state" where
  "handleKeyDown e s =
     (if (ctrlKey e \<or> metaKey e) \<and> key e = ''z''
      then (if shiftKey e then handleRedoIn (keyActiveLayerId s) s
            else handleUndoIn (keyActiveLayerId s) s)
      else if (ctrlKey e \<or> metaKey e) \<and> key e = ''y''
      then handleRedoIn (keyActiveLayerId s) s
      else s)"

text \<open>A click on a row of the layer list: \<open>setActiveLayerId(layer.id)\<close>.\<close>

definition selectLayer :: "string \<Rightarrow> state \<Rightarrow> state" where
  "selectLayer i s = s\<lparr>activeLayerId := i\<rparr>"

text \<open>
  The zoom buttons: \<open>setZoom(z => Math.min(z + 0.1, 5))\<close> and
  \<open>setZoom(z => Math.max(z - 0.1, 0.1))\<close>.
\<close>

definition zoomIn :: "state \<Rightarrow> state" where
  "zoomIn s = s\<lparr>zoom := min (addD (zoom s) (toDouble 0.1)) 5\<rparr>"


text \<open>
  \<open>addLayer\<close>: \<open>now\<close> is \<open>Date.now()\<close> in decimal and \<open>PREDEFINED_COLORS\<close> the
  colour table of \<open>types.ts\<close>.
\<close>

definition addLayer :: "string \<Rightarrow> string \<Rightarrow> string list \<Rightarrow> state \<Rightarrow> state" where
  "addLayer name' now PREDEFINED_COLORS s =
     (let s1 = pushToHistory (layers s) (currentMasks s) s;
          newId = ''inst-'' @ now;
          color' = PREDEFINED_COLORS ! (length (layers s) mod length PREDEFINED_COLORS)
      in s1\<lparr>layers := layers s1 @
                [\<lparr>layer_id = newId, name = name', color = color',
                  isVisible = True, isLocked = False\<rparr>],
            activeLayerId := newId\<rparr>)"


definition removeLayer :: "string \<Rightarrow> state \<Rightarrow> state" where
  "removeLayer i s =
     (if length (layers s) \<le> 1 then s
      else
        (let s1 = pushToHistory (layers s) (currentMasks s) s;
             s2 = s1\<lparr>layers := filter (\<lambda>l. layer_id l \<noteq> i) (layers s1)\<rparr>
         in if activeLayerId s = i then s2\<lparr>activeLayerId := layer_id (layers s ! 0)\<rparr> else s2))"


text \<open>
  \<open>runAIDetection\<close> is asynchronous. \<open>runAIDetection_start\<close> is the part before
  \<open>await detectObjectsInImage(imageSrc)\<close>; other handlers can run while the service
  answers. \<open>runAIDetection_resume\<close> is the part after it, for the answer \<open>labels\<close>:
  \<open>layers0\<close> is the constant \<open>layers\<close> of the render in which the function was
  called, \<open>aiId idx\<close> the string \<open>ai-${idx}-${Date.now()}\<close>. When the service fails
  there is no second part. \<open>runAIDetection\<close> is the whole call when nothing else
  happens in between.
\<close>

definition runAIDetection_start :: "state \<Rightarrow> state" where
  "runAIDetection_start s =
     (case imageSrc s of
        None \<Rightarrow> s
      | Some src \<Rightarrow> pushToHistory (layers s) (currentMasks s) s)"

definition runAIDetection_resume ::
  "layer list \<Rightarrow> string list \<Rightarrow> (nat \<Rightarrow> string) \<Rightarrow> string list \<Rightarrow> state \<Rightarrow> state" where
  "runAIDetection_resume layers0 labels aiId PREDEFINED_COLORS s =
     (if length labels > 0
      then
        (let newLayers =
               map (\<lambda>(label, idx).
                      \<lparr>layer_id = aiId idx, name = label,
                       color = PREDEFINED_COLORS !
                         ((length layers0 + idx) mod length PREDEFINED_COLORS),
                       isVisible = True, isLocked = False\<rparr>)
                   (zip labels [0..<length labels]);
             s2 = s\<lparr>layers :=
                      (if length (layers s) = 1 \<and> layer_id (layers s ! 0) = ''fg''
                       then newLayers else layers s @ newLayers)\<rparr>
         in if length newLayers > 0
            then s2\<lparr>activeLayerId := layer_id (newLayers ! 0)\<rparr> else s2)
      else s)"

definition runAIDetection :: "string list \<Rightarrow> (nat \<Rightarrow> string) \<Rightarrow> string list \<Rightarrow> state \<Rightarrow> state" where
  "runAIDetection labels aiId PREDEFINED_COLORS s =
     (case imageSrc s of
        None \<Rightarrow> s
      | Some src \<Rightarrow>
          runAIDetection_resume (layers s) labels aiId PREDEFINED_COLORS (runAIDetection_start s))"


section \<open>Mask store (CanvasEditor.tsx)\<close>

definition captureSnapshot :: "state \<Rightarrow> state" where
  "captureSnapshot s =
     handleSnapshot
       \<lparr>ident = allocated s,
        entries =
          (\<lambda>i. case maskCanvases s i of
                  Some canvas \<Rightarrow> Some (toDataURL canvas)
                | None \<Rightarrow>
                    (if (\<exists>l\<in>set (layers s). layer_id l = i) \<and> dimensions_width s > 0
                     then Some EmptyUrl else None))\<rparr>
       (s\<lparr>allocated := Suc (allocated s)\<rparr>)"

text \<open>The effect that creates a mask for every layer that has none.\<close>

definition ensureMasks :: "state \<Rightarrow> state" where
  "ensureMasks s =
     (if dimensions_width s = 0 then s
      else s\<lparr>maskCanvases :=
               (\<lambda>i. case maskCanvases s i of
                       Some c \<Rightarrow> Some c
                     | None \<Rightarrow>
                         (if \<exists>l\<in>set (layers s). layer_id l = i
                          then Some (createCanvas (dimensions_width s) (dimensions_height s))
                          else None))\<rparr>)"

text \<open>
  The body of the effect that loads \<open>restoredMasks\<close>: every canvas is cleared, then
  each entry with a non-empty URL is decoded and drawn onto its canvas (created when
  absent) with \<open>drawImage\<close>, under the composite operation its context is in. The
  images are taken to have loaded before the next event.
\<close>

definition handleRestoration :: "state \<Rightarrow> state" where
  "handleRestoration s =
     (case restoredMasks s of
        None \<Rightarrow> s
      | Some restored \<Rightarrow>
          (if dimensions_width s > 0 \<and> dimensions_height s > 0
           then s\<lparr>maskCanvases :=
                    (\<lambda>i. case entries restored i of
                            Some (PngUrl img) \<Rightarrow>
                              Some (drawImage (maskGCO s i) img
                                      (case maskCanvases s i of
                                         Some canvas \<Rightarrow> clearRect canvas
                                       | None \<Rightarrow> createCanvas (dimensions_width s)
                                                                (dimensions_height s)))
                          | Some EmptyUrl \<Rightarrow> map_option clearRect (maskCanvases s i)
                          | None \<Rightarrow> map_option clearRect (maskCanvases s i))\<rparr>
           else s))"

text \<open>
  The effects after a render. The listener effect of \<open>App\<close> runs again when one of
  \<open>historyPast\<close>, \<open>historyFuture\<close>, \<open>layers\<close> is a new array; every handler
  below that sets one of them changes its contents as well, so the values are compared.
  The effect that creates missing masks is idempotent and is run every time. The
  restoration effect runs when \<open>restoredMasks\<close> is another object than at its last run
  (the other dependency, \<open>dimensions\<close>, changes only when an image is loaded).
\<close>

definition commitEffects :: "state \<Rightarrow> state" where
  "commitEffects s =
     (let s1 = (if keyDeps s = (historyPast s, historyFuture s, layers s) then s
                else s\<lparr>keyDeps := (historyPast s, historyFuture s, layers s),
                       keyActiveLayerId := activeLayerId s\<rparr>);
          s2 = ensureMasks s1
      in if restorationDeps s2 = map_option ident (restoredMasks s2) then s2
         else handleRestoration (s2\<lparr>restorationDeps := map_option ident (restoredMasks s2)\<rparr>))"



section \<open>Flood fill (CanvasEditor.tsx, performFloodFill)\<close>

text \<open>
  A read of a typed array outside its range yields \<open>undefined\<close>, a write there is
  ignored. \<open>Math.abs(undefined - r0) <= tol\<close> is false.
\<close>

definition byteAt :: "nat list \<Rightarrow> nat \<Rightarrow> nat option" where
  "byteAt d i = (if i < length d then Some (d ! i) else None)"

fun absLe :: "nat option \<Rightarrow> nat option \<Rightarrow> real \<Rightarrow> bool" where
  "absLe (Some c) (Some c0) tol = (\<bar>real c - real c0\<bar> \<le> tol)"
| "absLe a b tol = False"

definition colorMatch ::
  "nat list \<Rightarrow> nat option \<Rightarrow> nat option \<Rightarrow> nat option \<Rightarrow> real \<Rightarrow> nat \<Rightarrow> bool" where
  "colorMatch srcData r0 g0 b0 tol idx =
     (absLe (byteAt srcData idx) r0 tol \<and>
      absLe (byteAt srcData (idx + 1)) g0 tol \<and>
      absLe (byteAt srcData (idx + 2)) b0 tol)"

text \<open>The \<open>Uint8Array\<close> of visited flags, as a list of booleans.\<close>

definition visitedAt :: "bool list \<Rightarrow> nat \<Rightarrow> bool" where
  "visitedAt v k = (k < length v \<and> v ! k)"

record fill =
  stack :: "nat list"
  visited :: "bool list"
  maskData :: "nat list"

text \<open>The block repeated for each of the four neighbours.\<close>

definition pushIfMatch :: "(nat \<Rightarrow> bool) \<Rightarrow> nat \<Rightarrow> fill \<Rightarrow> fill" where
  "pushIfMatch cm nIdx f =
     (if \<not> visitedAt (visited f) (nIdx div 4) \<and> cm nIdx
      then f\<lparr>visited := (visited f)[nIdx div 4 := True], stack := stack f @ [nIdx]\<rparr>
      else f)"

text \<open>
  One iteration of the \<open>while\<close> loop. Every index on the stack is a multiple of four, so
  \<open>idx / 4\<close> is the integer quotient.
\<close>

definition floodStep :: "nat \<Rightarrow> nat \<Rightarrow> (nat \<Rightarrow> bool) \<Rightarrow> fill \<Rightarrow> fill" where
  "floodStep w h cm f =
     (let idx = last (stack f);
          f0 = f\<lparr>stack := butlast (stack f),
                 maskData := (maskData f)[idx := 255, idx + 1 := 255, idx + 2 := 255, idx + 3 := 255]\<rparr>;
          x = (idx div 4) mod w;
          y = (idx div 4) div w;
          stride = w * 4;
          f1 = (if x < w - 1 then pushIfMatch cm (idx + 4) f0 else f0);
          f2 = (if x > 0 then pushIfMatch cm (idx - 4) f1 else f1);
          f3 = (if y < h - 1 then pushIfMatch cm (idx + stride) f2 else f2);
          f4 = (if y > 0 then pushIfMatch cm (idx - stride) f3 else f3)
      in f4)"

partial_function (option) floodLoop ::
  "nat \<Rightarrow> nat \<Rightarrow> (nat \<Rightarrow> bool) \<Rightarrow> fill \<Rightarrow> nat list option" where
  "floodLoop w h cm f =
     (if stack f = [] then Some (maskData f) else floodLoop w h cm (floodStep w h cm f))"

declare floodLoop.simps [code]

text \<open>
  \<open>performFloodFill\<close>. The result is \<open>None\<close> when the loop does not return; an early
  \<open>return\<close> of the source leaves the state as it is.
\<close>

definition performFloodFill :: "real \<Rightarrow> real \<Rightarrow> state \<Rightarrow> state option" where
  "performFloodFill startX0 startY0 s =
     (case sourceImageData s of
        None \<Rightarrow> Some s
      | Some srcData \<Rightarrow>
          (let w = dimensions_width s;
               h = dimensions_height s;
               startX = \<lfloor>startX0\<rfloor>;
               startY = \<lfloor>startY0\<rfloor>
           in if startX < 0 \<or> startX \<ge> int w \<or> startY < 0 \<or> startY \<ge> int h then Some s
              else
                (let startIdx = (nat startY * w + nat startX) * 4;
                     r0 = byteAt srcData startIdx;
                     g0 = byteAt srcData (startIdx + 1);
                     b0 = byteAt srcData (startIdx + 2);
                     tol = mulD (tolerance s) (toDouble 2.55);
                     visited0 = (replicate (w * h) False)[startIdx div 4 := True];
                     stack0 = [startIdx]
                 in case maskCanvases s (activeLayerId s) of
                      None \<Rightarrow> Some s
                    | Some maskCanvas \<Rightarrow>
                        (case floodLoop w h (colorMatch srcData r0 g0 b0 tol)
                                \<lparr>stack = stack0, visited = visited0,
                                 maskData = getImageData maskCanvas\<rparr> of
                           None \<Rightarrow> None
                         | Some md \<Rightarrow>
                             Some (captureSnapshot
                                     (s\<lparr>maskCanvases :=
                                          (maskCanvases s)(activeLayerId s \<mapsto>
                                             putImageData md maskCanvas)\<rparr>))))))"


section \<open>Polygon tool and stroke completion (CanvasEditor.tsx)\<close>

text \<open>
  \<open>commitPolygon\<close>: \<open>fillPath\<close> is the platform's scan conversion of the closed path
  (\<open>beginPath\<close>, \<open>moveTo\<close>, \<open>lineTo\<close>, \<open>closePath\<close>) filled with white on a
  transparent canvas of the given size; \<open>ctx.fill()\<close> composites that shape onto the
  mask under the composite operation of the mask's context, which \<open>save\<close> and
  \<open>restore\<close> leave as the last stroke on this layer has set it.
\<close>

definition commitPolygon :: "(point list \<Rightarrow> canvas \<Rightarrow> canvas) \<Rightarrow> state \<Rightarrow> state" where
  "commitPolygon fillPath s =
     (if length (polyPoints s) < 3 then s\<lparr>polyPoints := []\<rparr>
      else
        (case maskCanvases s (activeLayerId s) of
           None \<Rightarrow> s
         | Some maskCanvas \<Rightarrow>
             captureSnapshot
               (s\<lparr>maskCanvases :=
                    (maskCanvases s)(activeLayerId s \<mapsto>
                       drawImage (maskGCO s (activeLayerId s))
                         (fillPath (polyPoints s)
                            (createCanvas (width maskCanvas) (height maskCanvas)))
                         maskCanvas),
                  polyPoints := []\<rparr>)))"



definition handlePointerUp :: "state \<Rightarrow> state" where
  "handlePointerUp s =
     (if tool s = POLYGON \<or> tool s = MAGIC_WAND then s
      else
        (let s1 = (if isDrawing s then captureSnapshot s else s)
         in s1\<lparr>isDrawing := False, lastPoint := None, isPanning := False, panStart := None\<rparr>))"


section \<open>Export (CanvasEditor.tsx, processExport)\<close>

definition getCompositeMask :: "state \<Rightarrow> canvas" where
  "getCompositeMask s =
     foldl (\<lambda>mCtx layer.
              if isVisible layer
              then (case maskCanvases s (layer_id layer) of
                      Some lMask \<Rightarrow> drawImage SourceOver lMask mCtx
                    | None \<Rightarrow> mCtx)
              else mCtx)
           (createCanvas (dimensions_width s) (dimensions_height s))
           (layers s)"

text \<open>The body of the \<open>forEach\<close> of the training mask, for one layer and its index.\<close>

definition paintLabel :: "state \<Rightarrow> canvas \<Rightarrow> layer \<times> nat \<Rightarrow> canvas" where
  "paintLabel s ctx li =
     (let layer = fst li; index = snd li
      in if \<not> isVisible layer then ctx
         else
           (case maskCanvases s (layer_id layer) of
              None \<Rightarrow> ctx
            | Some lMask \<Rightarrow>
                (let ident = index + 1;
                     tempC = fillRect SourceIn (rgbStyle ident)
                               (drawImage SourceOver lMask
                                  (createCanvas (dimensions_width s) (dimensions_height s)))
                 in if width tempC > 0 then drawImage SourceOver tempC ctx else ctx)))"

text \<open>
  \<open>processExport\<close> for the four modes the properties below concern (the remaining mode,
  \<open>visual_mask\<close>, is left out). The result is the bitmap handed to
  \<open>onExportComplete\<close>, or \<open>None\<close> when the function returns early.
\<close>

definition processExport :: "exportMode \<Rightarrow> state \<Rightarrow> canvas option" where
  "processExport exportMode s =
     (case imageRef s of
        None \<Rightarrow> None
      | Some img \<Rightarrow>
          (if dimensions_width s = 0 then None
           else
             (let blank = createCanvas (dimensions_width s) (dimensions_height s)
              in case exportMode of
                   White_bg \<Rightarrow>
                     (let ctx = fillRect SourceOver white blank;
                          cCtx = drawImage SourceOver img blank;
                          mask = getCompositeMask s;
                          cutoutCanvas = drawImage DestinationIn mask cCtx
                      in Some (drawImage SourceOver cutoutCanvas ctx))
                 | Rgba \<Rightarrow>
                     (let ctx = drawImage SourceOver img blank;
                          maskComposite = getCompositeMask s
                      in Some (if width maskComposite > 0
                               then drawImage DestinationIn maskComposite ctx else ctx))
                 | Instance \<Rightarrow>
                     (let ctx = drawImage SourceOver img blank;
                          maskComposite =
                            (case maskCanvases s (activeLayerId s) of
                               None \<Rightarrow> blank
                             | Some activeMask \<Rightarrow>
                                 (let mCtx = drawImage SourceOver activeMask blank
                                  in if activeLayerId s \<noteq> ''fg''
                                     then (case maskCanvases s ''fg'' of
                                             Some fgMask \<Rightarrow> drawImage DestinationIn fgMask mCtx
                                           | None \<Rightarrow> mCtx)
                                     else mCtx))
                      in Some (if width maskComposite > 0
                               then drawImage DestinationIn maskComposite ctx else ctx))
                 | Training_mask \<Rightarrow>
                     (let ctx0 = fillRect SourceOver black blank;
                          ctx1 = foldl (paintLabel s) ctx0
                                   (zip (layers s) [0..<length (layers s)]);
                          ctx2 = drawImage DestinationIn img ctx1;
                          fCtx = fillRect SourceOver black blank
                      in Some (drawImage SourceOver ctx2 fCtx)))))"


section \<open>Specification-side notions\<close>

text \<open>
  The 4-connected region of a seed pixel under a predicate on pixel coordinates, as the
  specification words it: the seed belongs to it, and so does every in-bounds pixel that
  satisfies the predicate and shares an edge with a member.
\<close>

definition adjacent4 :: "nat \<times> nat \<Rightarrow> nat \<times> nat \<Rightarrow> bool" where
  "adjacent4 p q =
     ((fst p = fst q \<and> (snd q = snd p + 1 \<or> snd p = snd q + 1)) \<or>
      (snd p = snd q \<and> (fst q = fst p + 1 \<or> fst p = fst q + 1)))"

inductive_set region :: "nat \<Rightarrow> nat \<Rightarrow> (nat \<Rightarrow> nat \<Rightarrow> bool) \<Rightarrow> nat \<times> nat \<Rightarrow> (nat \<times> nat) set"
  for w h matches seed where
  region_seed: "seed \<in> region w h matches seed"
| region_step: "p \<in> region w h matches seed \<Longrightarrow> adjacent4 p q \<Longrightarrow> fst q < w \<Longrightarrow> snd q < h \<Longrightarrow>
                matches (fst q) (snd q) \<Longrightarrow> q \<in> region w h matches seed"

text \<open>
  The colour predicate of the specification, on the source samples: each of R, G, B of
  pixel \<open>(x, y)\<close> within \<open>T\<close> of that channel of pixel \<open>(x0, y0)\<close>; alpha is not compared.
\<close>

definition pixelSimilar :: "nat list \<Rightarrow> nat \<Rightarrow> real \<Rightarrow> nat \<Rightarrow> nat \<Rightarrow> nat \<Rightarrow> nat \<Rightarrow> bool" where
  "pixelSimilar srcData w T x0 y0 x y =
     (let i0 = 4 * (y0 * w + x0); i = 4 * (y * w + x)
      in \<bar>real (srcData ! i) - real (srcData ! i0)\<bar> \<le> T \<and>
         \<bar>real (srcData ! (i + 1)) - real (srcData ! (i0 + 1))\<bar> \<le> T \<and>
         \<bar>real (srcData ! (i + 2)) - real (srcData ! (i0 + 2))\<bar> \<le> T)"


section \<open>Invariant of the flood-fill loop\<close>

text \<open>
  Pixel \<open>k\<close> is the pixel whose bytes start at index \<open>4 * k\<close>. \<open>nbr\<close> is the
  neighbourhood as the loop body tests it, \<open>reachK\<close> what can be reached through it.
\<close>

definition nbr :: "nat \<Rightarrow> nat \<Rightarrow> nat \<Rightarrow> nat \<Rightarrow> bool" where
  "nbr w h k k' =
     ((k mod w < w - 1 \<and> k' = k + 1) \<or> (0 < k mod w \<and> k' = k - 1) \<or>
      (k div w < h - 1 \<and> k' = k + w) \<or> (0 < k div w \<and> k' = k - w))"

inductive_set reachK :: "nat \<Rightarrow> nat \<Rightarrow> (nat \<Rightarrow> bool) \<Rightarrow> nat \<Rightarrow> nat set"
  for w h cm k0 where
  reachK_seed: "k0 \<in> reachK w h cm k0"
| reachK_step: "k \<in> reachK w h cm k0 \<Longrightarrow> nbr w h k k' \<Longrightarrow> cm (4 * k') \<Longrightarrow> k' \<in> reachK w h cm k0"

definition whiteAt :: "nat list \<Rightarrow> nat \<Rightarrow> bool" where
  "whiteAt d k = (d ! (4 * k) = 255 \<and> d ! (4 * k + 1) = 255 \<and> d ! (4 * k + 2) = 255 \<and> d ! (4 * k + 3) = 255)"

definition sameAt :: "nat list \<Rightarrow> nat list \<Rightarrow> nat \<Rightarrow> bool" where
  "sameAt d d0 k = (d ! (4 * k) = d0 ! (4 * k) \<and> d ! (4 * k + 1) = d0 ! (4 * k + 1) \<and>
                    d ! (4 * k + 2) = d0 ! (4 * k + 2) \<and> d ! (4 * k + 3) = d0 ! (4 * k + 3))"



definition unvisited :: "nat \<Rightarrow> bool list \<Rightarrow> nat set" where
  "unvisited n v = {k. k < n \<and> \<not> v ! k}"

definition fillMeasure :: "nat \<Rightarrow> fill \<Rightarrow> nat" where
  "fillMeasure n f = length (stack f) + 2 * card (unvisited n (visited f))"

definition closedAt :: "nat \<Rightarrow> nat \<Rightarrow> (nat \<Rightarrow> bool) \<Rightarrow> bool list \<Rightarrow> nat \<Rightarrow> bool" where
  "closedAt w h cm v k = (\<forall>k'. nbr w h k k' \<longrightarrow> cm (4 * k') \<longrightarrow> v ! k')"

definition baseInv :: "nat \<Rightarrow> nat \<Rightarrow> (nat \<Rightarrow> bool) \<Rightarrow> nat \<Rightarrow> nat list \<Rightarrow> fill \<Rightarrow> bool" where
  "baseInv w h cm k0 m0 f =
     (0 < w \<and> length (visited f) = w * h \<and> length (maskData f) = 4 * (w * h) \<and>
      (\<forall>i\<in>set (stack f). 4 dvd i \<and> i div 4 < w * h \<and> visited f ! (i div 4)) \<and>
      (\<forall>k<w * h. visited f ! k \<longrightarrow> k \<in> reachK w h cm k0) \<and>
      (\<forall>k<w * h. \<not> visited f ! k \<longrightarrow> sameAt (maskData f) m0 k) \<and>
      k0 < w * h \<and> visited f ! k0)"

definition doneAt :: "nat \<Rightarrow> nat \<Rightarrow> (nat \<Rightarrow> bool) \<Rightarrow> fill \<Rightarrow> nat \<Rightarrow> bool" where
  "doneAt w h cm f k =
     (visited f ! k \<longrightarrow> 4 * k \<notin> set (stack f) \<longrightarrow>
        whiteAt (maskData f) k \<and> closedAt w h cm (visited f) k)"

definition fillInv :: "nat \<Rightarrow> nat \<Rightarrow> (nat \<Rightarrow> bool) \<Rightarrow> nat \<Rightarrow> nat list \<Rightarrow> fill \<Rightarrow> bool" where
  "fillInv w h cm k0 m0 f = (baseInv w h cm k0 m0 f \<and> (\<forall>k<w * h. doneAt w h cm f k))"

definition midInv :: "nat \<Rightarrow> nat \<Rightarrow> (nat \<Rightarrow> bool) \<Rightarrow> nat \<Rightarrow> nat list \<Rightarrow> nat \<Rightarrow> fill \<Rightarrow> bool" where
  "midInv w h cm k0 m0 k f =
     (baseInv w h cm k0 m0 f \<and> (\<forall>k1<w * h. k1 \<noteq> k \<longrightarrow> doneAt w h cm f k1) \<and>
      k < w * h \<and> visited f ! k \<and> whiteAt (maskData f) k)"



section \<open>Well-formed canvases and binary masks\<close>


text \<open>
  A mask is binary when each of its pixels is included (opaque white) or excluded (fully
  transparent); it covers the pixels it includes.
\<close>

definition binaryMask :: "nat \<Rightarrow> nat \<Rightarrow> canvas \<Rightarrow> bool" where
  "binaryMask w h m =
     (width m = w \<and> height m = h \<and>
      (\<forall>x<w. \<forall>y<h. getPixel m x y = white \<or> getPixel m x y = transparent))"

definition covers :: "canvas \<Rightarrow> nat \<Rightarrow> nat \<Rightarrow> bool" where
  "covers m x y = (getPixel m x y = white)"

text \<open>The union mask: some visible layer of the registry has a mask that covers the pixel.\<close>

definition unionCovers :: "state \<Rightarrow> nat \<Rightarrow> nat \<Rightarrow> bool" where
  "unionCovers s x y =
     (\<exists>l\<in>set (layers s). isVisible l \<and>
        (\<exists>m. maskCanvases s (layer_id l) = Some m \<and> covers m x y))"

text \<open>The masks of the visible layers are binary.\<close>

definition visibleMasksBinary :: "state \<Rightarrow> bool" where
  "visibleMasksBinary s =
     (\<forall>l\<in>set (layers s). isVisible l \<longrightarrow>
        (\<forall>m. maskCanvases s (layer_id l) = Some m \<longrightarrow>
           binaryMask (dimensions_width s) (dimensions_height s) m))"


text \<open>
  Layer number \<open>i\<close> of the registry (counted from 0) paints a pixel in the training mask
  when it is visible and its mask covers the pixel.
\<close>

definition paintedBy :: "state \<Rightarrow> layer list \<Rightarrow> nat \<Rightarrow> nat \<Rightarrow> nat \<Rightarrow> bool" where
  "paintedBy s ls i x y =
     (isVisible (ls ! i) \<and> (\<exists>m. maskCanvases s (layer_id (ls ! i)) = Some m \<and> covers m x y))"


section \<open>Example states\<close>

text \<open>
  A session after the upload of a 2 by 1 image (a dark pixel left of a light one) with the
  default layer, nothing painted yet.
\<close>

definition exSource :: canvas where
  "exSource = \<lparr>width = 2, height = 1, data = [10, 10, 10, 255, 200, 200, 200, 255]\<rparr>"

definition exBlank :: canvas where
  "exBlank = \<lparr>width = 2, height = 1, data = [0, 0, 0, 0, 0, 0, 0, 0]\<rparr>"

definition exFg :: layer where
  "exFg = \<lparr>layer_id = ''fg'', name = ''Foreground'', color = ''#ef4444'',
           isVisible = True, isLocked = False\<rparr>"

definition exState :: state where
  "exState =
     \<lparr>imageSrc = Some ''data:image/png'', layers = [exFg], activeLayerId = ''fg'',
      historyPast = [], historyFuture = [],
      currentMasks = \<lparr>ident = 0, entries = Map.empty\<rparr>,
      restoredMasks = Some \<lparr>ident = 1, entries = Map.empty\<rparr>,
      tool = MAGIC_WAND, brushSize = 20, tolerance = 30, zoom = 1,
      imageRef = Some exSource, dimensions_width = 2, dimensions_height = 1,
      maskCanvases = [''fg'' \<mapsto> exBlank],
      sourceImageData = Some [10, 10, 10, 255, 200, 200, 200, 255],
      isDrawing = False, lastPoint = None, pan = (0, 0), isPanning = False,
      panStart = None, polyPoints = [], allocated = 2, maskGCO = (\<lambda>i. SourceOver),
      restorationDeps = Some 1, keyDeps = ([], [], [exFg]), keyActiveLayerId = ''fg''\<rparr>"


text \<open>
  The same session after a second layer was added and painted over the left pixel; the
  default layer is active, its mask still empty.
\<close>

definition exInst :: layer where
  "exInst = \<lparr>layer_id = ''inst-1'', name = ''New Instance'', color = ''#3b82f6'',
             isVisible = True, isLocked = False\<rparr>"

definition exLeft :: canvas where
  "exLeft = \<lparr>width = 2, height = 1, data = [255, 255, 255, 255, 0, 0, 0, 0]\<rparr>"

definition exTwo :: state where
  "exTwo = exState\<lparr>layers := [exFg, exInst],
                   maskCanvases := [''fg'' \<mapsto> exBlank, ''inst-1'' \<mapsto> exLeft]\<rparr>"


text \<open>
  The first session at the end of its first brush stroke, over the left pixel, before the
  pointer is released.
\<close>

definition exStroke :: state where
  "exStroke = exState\<lparr>tool := BRUSH, isDrawing := True, maskCanvases := [''fg'' \<mapsto> exLeft]\<rparr>"


text \<open>The first session with the whole image painted on the default layer.\<close>

definition exWhole :: canvas where
  "exWhole = \<lparr>width = 2, height = 1, data = [255, 255, 255, 255, 255, 255, 255, 255]\<rparr>"

definition exFull :: state where
  "exFull = exState\<lparr>maskCanvases := [''fg'' \<mapsto> exWhole]\<rparr>"


text \<open>
  The two-layer session with the second layer active, after the default layer \<open>fg\<close> was
  removed from the registry (and the effect that creates missing masks has run).
\<close>

definition exRemoved :: state where
  "exRemoved = ensureMasks (removeLayer ''fg'' (exTwo\<lparr>activeLayerId := ''inst-1''\<rparr>))"


text \<open>
  The two-layer session with the whole image painted on the first layer and the left pixel
  on the second.
\<close>

definition exNested :: state where
  "exNested = exTwo\<lparr>maskCanvases := [''fg'' \<mapsto> exWhole, ''inst-1'' \<mapsto> exLeft]\<rparr>"

text \<open>
  A session on a 1 by 1 opaque image with 256 layers: 255 hidden ones with empty masks,
  then a visible one, in position 256, whose mask covers the pixel.
\<close>

definition exPixel :: canvas where
  "exPixel = \<lparr>width = 1, height = 1, data = [200, 0, 0, 255]\<rparr>"

definition exPixelMask :: canvas where
  "exPixelMask = \<lparr>width = 1, height = 1, data = [255, 255, 255, 255]\<rparr>"

definition exPixelBlank :: canvas where
  "exPixelBlank = \<lparr>width = 1, height = 1, data = [0, 0, 0, 0]\<rparr>"

definition exHidden :: "nat \<Rightarrow> layer" where
  "exHidden k = \<lparr>layer_id = ''inst-'' @ replicate (Suc k) (CHR ''1''), name = ''New Instance'',
                 color = ''#3b82f6'', isVisible = False, isLocked = False\<rparr>"

definition exTop :: layer where
  "exTop = \<lparr>layer_id = ''inst-0'', name = ''New Instance'', color = ''#22c55e'',
            isVisible = True, isLocked = False\<rparr>"

definition exMany :: state where
  "exMany =
     exState\<lparr>layers := map exHidden [0..<255] @ [exTop], activeLayerId := ''inst-0'',
             imageRef := Some exPixel, dimensions_width := 1, dimensions_height := 1,
             sourceImageData := Some [200, 0, 0, 255],
             maskCanvases :=
               (\<lambda>i. if i = ''inst-0'' then Some exPixelMask
                    else if i \<in> set (map (\<lambda>k. layer_id (exHidden k)) [0..<255])
                    then Some exPixelBlank else None)\<rparr>"


text \<open>
  The first session on an image of a black pixel left of a white one, the tolerance slider
  at its maximum.
\<close>

definition exContrast :: state where
  "exContrast =
     exState\<lparr>tolerance := 100,
             imageRef := Some \<lparr>width = 2, height = 1, data = [0, 0, 0, 255, 255, 255, 255, 255]\<rparr>,
             sourceImageData := Some [0, 0, 0, 255, 255, 255, 255, 255]\<rparr>"


text \<open>
  The first session after the stroke was completed, after the undo button was pressed
  then, and after the redo button was pressed after that, each time with the effects of
  the render that follows.
\<close>

definition exStroked :: state where
  "exStroked = commitEffects (handlePointerUp exStroke)"

definition exUndone :: state where
  "exUndone = commitEffects (handleUndo exStroked)"

definition exRedone :: state where
  "exRedone = commitEffects (handleRedo exUndone)"


text \<open>
  The first session after a layer was added, the addition undone and redone with the
  buttons, the new layer selected in the layer list, and Ctrl+Z pressed.
\<close>

definition exCtrlZ :: keyboardEvent where
  "exCtrlZ = \<lparr>ctrlKey = True, metaKey = False, shiftKey = False, key = ''z''\<rparr>"

definition exAdded :: state where
  "exAdded =
     commitEffects (addLayer ''New Instance'' ''1700000000000'' [''#ef4444'', ''#3b82f6''] exState)"

definition exReadded :: state where
  "exReadded = commitEffects (handleRedo (commitEffects (handleUndo exAdded)))"

definition exPicked :: state where
  "exPicked = commitEffects (selectLayer ''inst-1700000000000'' exReadded)"

definition exKeyUndone :: state where
  "exKeyUndone = commitEffects (handleKeyDown exCtrlZ exPicked)"



definition standsFor :: "dataUrl option \<Rightarrow> canvas \<Rightarrow> bool" where
  "standsFor u c =
     (u = Some (toDataURL c) \<or>
      ((u = None \<or> u = Some EmptyUrl) \<and> c = createCanvas (width c) (height c)))"

definition inStep :: "state \<Rightarrow> bool" where
  "inStep s = (\<forall>i c. maskCanvases s i = Some c \<longrightarrow> standsFor (entries (currentMasks s) i) c)"





text \<open>
  A session on a 1 by 1 opaque image whose only mask pixel is half transparent, as on the
  edge of a brush stroke.
\<close>

definition exSoft :: state where
  "exSoft =
     exState\<lparr>imageRef := Some \<lparr>width = 1, height = 1, data = [10, 10, 10, 255]\<rparr>,
             dimensions_width := 1, dimensions_height := 1,
             sourceImageData := Some [10, 10, 10, 255],
             maskCanvases := [''fg'' \<mapsto> \<lparr>width = 1, height = 1, data = [255, 255, 255, 128]\<rparr>]\<rparr>"










section \<open>Rounding to a double\<close>

lemma pow2_powi: "pow2 e = 2 powi e"
  by (simp add: pow2_def power_int_def field_simps)

lemma pow2_mono: "a \<le> b \<Longrightarrow> pow2 a \<le> pow2 b"
  by (simp add: pow2_powi power_int_increasing)

lemma exponentFrom_eq:
  "pow2 e \<le> x \<Longrightarrow> x < pow2 (e + 1) \<Longrightarrow> - 1021 \<le> e \<Longrightarrow> e \<le> int n - 1022 \<Longrightarrow>
   exponentFrom n x = e"
proof (induction n)
  case 0
  then show ?case by simp
next
  case (Suc n)
  show ?case
  proof (cases "e = int n - 1021")
    case True
    with Suc.prems show ?thesis by simp
  next
    case False
    with Suc.prems have le: "e + 1 \<le> int n - 1021" by simp
    from pow2_mono[OF le] Suc.prems(2) have "\<not> pow2 (int n - 1021) \<le> x" by simp
    moreover from le have "e \<le> int n - 1022" by simp
    ultimately show ?thesis using Suc.IH[OF Suc.prems(1,2,3)] by simp
  qed
qed

lemma exponentFrom_low: "x < pow2 (- 1021) \<Longrightarrow> exponentFrom n x = - 1022"
proof (induction n)
  case 0
  then show ?case by simp
next
  case (Suc n)
  have "pow2 (- 1021) \<le> pow2 (int n - 1021)" by (rule pow2_mono) simp
  with Suc.prems have "\<not> pow2 (int n - 1021) \<le> x" by simp
  with Suc show ?case by simp
qed

lemma exponent_eq:
  assumes "pow2 e \<le> \<bar>x\<bar>" "\<bar>x\<bar> < pow2 (e + 1)" "- 1021 \<le> e" "e \<le> 1023"
  shows "exponent x = e"
  unfolding exponent_def using assms by (intro exponentFrom_eq) simp_all

lemma roundTiesToEven_near:
  assumes a: "\<bar>x - of_int m\<bar> < 1 / 2"
  shows "roundTiesToEven x = m"
proof (cases "of_int m \<le> x")
  case True
  with a have "\<lfloor>x\<rfloor> = m" by (intro floor_unique) (auto simp: abs_if split: if_splits)
  with a True show ?thesis by (simp add: roundTiesToEven_def Let_def)
next
  case False
  with a have f: "\<lfloor>x\<rfloor> = m - 1" by (intro floor_unique) (auto simp: abs_if split: if_splits)
  with a False show ?thesis by (auto simp: roundTiesToEven_def Let_def abs_if split: if_splits)
qed

text \<open>
  The double nearest to \<open>x\<close>, given the exponent of \<open>x\<close> and a significand closer
  than half a unit in the last place.
\<close>

lemma toDouble_eq:
  assumes e: "pow2 e \<le> \<bar>x\<bar>" "\<bar>x\<bar> < pow2 (e + 1)" "- 1021 \<le> e" "e \<le> 1023"
    and n: "\<bar>x / pow2 (e - 52) - of_int m\<bar> < 1 / 2"
  shows "toDouble x = of_int m * pow2 (e - 52)"
  unfolding toDouble_def exponent_eq[OF e] Let_def roundTiesToEven_near[OF n] ..

lemma toDouble_zero: "toDouble 0 = 0"
  by (simp add: toDouble_def roundTiesToEven_def)

text \<open>The literal \<open>2.55\<close>, and the thresholds of the tolerances 30 and 100.\<close>

lemma toDouble_2_55: "toDouble 2.55 = 5742089524897382 / 2 ^ 51"
  using toDouble_eq[of 1 "255 / 100" 5742089524897382]
  by (simp add: pow2_def)

lemma threshold_30: "mulD 30 (toDouble 2.55) = 153 / 2"
  unfolding toDouble_2_55 mulD_def
  using toDouble_eq[of 6 "30 * (5742089524897382 / 2 ^ 51)" 5383208929591296]
  by (simp add: pow2_def)

lemma threshold_100: "mulD 100 (toDouble 2.55) = 255 - 1 / 2 ^ 45"
  unfolding toDouble_2_55 mulD_def
  using toDouble_eq[of 7 "100 * (5742089524897382 / 2 ^ 51)" 8972014882652159]
  by (simp add: pow2_def)


section \<open>Reading the pixels of a constructed canvas\<close>

lemma concat_bytes_length: "length (concat (map (\<lambda>k. pixelBytes (g k)) [0..<n])) = 4 * n"
  by (induction n) (simp_all add: pixelBytes_def)

lemma concat_bytes_nth:
  "k < n \<Longrightarrow> j < 4 \<Longrightarrow>
   concat (map (\<lambda>k. pixelBytes (g k)) [0..<n]) ! (4 * k + j) = pixelBytes (g k) ! j"
proof (induction n)
  case 0
  then show ?case by simp
next
  case (Suc n)
  show ?case
  proof (cases "k < n")
    case True
    with Suc.prems have "4 * k + j < 4 * n" by arith
    with Suc.IH[OF True Suc.prems(2)] show ?thesis
      by (simp add: nth_append concat_bytes_length)
  next
    case False
    with Suc.prems have "k = n" by arith
    then show ?thesis by (simp add: nth_append concat_bytes_length)
  qed
qed

lemma index_bound:
  assumes "x < w" and "y < h"
  shows "y * w + x < w * (h::nat)"
proof -
  from assms(1) have "y * w + x < Suc y * w" by simp
  also from assms(2) have "Suc y * w \<le> h * w" by (intro mult_le_mono1) simp
  finally show ?thesis by (simp add: mult.commute)
qed

lemma width_mkCanvas: "width (mkCanvas w h f) = w"
  and height_mkCanvas: "height (mkCanvas w h f) = h"
  and length_mkCanvas: "length (data (mkCanvas w h f)) = 4 * (w * h)"
  by (simp_all add: mkCanvas_def concat_bytes_length)

lemma getPixel_mkCanvas:
  "getPixel (mkCanvas w h f) x y = (if x < w \<and> y < h then f x y else transparent)"
proof (cases "x < w \<and> y < h")
  case False
  then show ?thesis by (auto simp: getPixel_def width_mkCanvas height_mkCanvas)
next
  case True
  then have k: "y * w + x < w * h" by (simp add: index_bound)
  from True have dm: "(y * w + x) mod w = x" "(y * w + x) div w = y" by simp_all
  define d where "d = data (mkCanvas w h f)"
  define i where "i = 4 * (y * w + x)"
  have b: "\<And>j. j < 4 \<Longrightarrow> d ! (i + j) = pixelBytes (f x y) ! j"
    unfolding d_def i_def mkCanvas_def
    using concat_bytes_nth[OF k, of _ "\<lambda>k. f (k mod w) (k div w)"] dm by simp
  have "d ! i = red (f x y)" "d ! (i + 1) = green (f x y)"
       "d ! (i + 2) = blue (f x y)" "d ! (i + 3) = alpha (f x y)"
    using b[of 0] b[of 1] b[of 2] b[of 3] by (simp_all add: pixelBytes_def)
  then have "RGBA (d ! i) (d ! (i + 1)) (d ! (i + 2)) (d ! (i + 3)) = f x y" by simp
  with True show ?thesis
    unfolding getPixel_def Let_def width_mkCanvas height_mkCanvas d_def i_def by simp
qed


section \<open>Flood fill: the loop returns, and what it returns\<close>

lemma lt_iff_div: "0 < w \<Longrightarrow> (k < w * h) = (k div w < (h::nat))"
  by (simp add: div_less_iff_less_mult mult.commute)

lemma succ_divmod:
  assumes "k mod w < w - 1"
  shows "(k + 1) div w = k div (w::nat)" and "(k + 1) mod w = k mod w + 1"
proof -
  from assms have ne: "Suc (k mod w) \<noteq> w" by arith
  then show m: "(k + 1) mod w = k mod w + 1" by (simp add: mod_Suc)
  then show "(k + 1) div w = k div w" by (simp add: div_Suc)
qed

lemma pred_divmod:
  assumes "0 < k mod w"
  shows "(k - 1) div w = k div (w::nat)" and "(k - 1) mod w = k mod w - 1" and "0 < k"
proof -
  from assms show pos: "0 < k" by (cases k) auto
  then obtain j where k: "k = Suc j" by (cases k) auto
  with assms have nz: "Suc j mod w \<noteq> 0" by simp
  then show "(k - 1) div w = k div w" by (simp add: k div_Suc)
  from nz show "(k - 1) mod w = k mod w - 1" by (simp add: k mod_Suc split: if_splits)
qed

lemma sub_divmod:
  assumes "0 < k div w"
  shows "(k - w) div w = k div (w::nat) - 1" and "(k - w) mod w = k mod w" and "w \<le> k" and "0 < w"
proof -
  from assms show w: "0 < w" by (cases w) auto
  from assms show le: "w \<le> k" using div_greater_zero_iff by auto
  from w le have "k div w = Suc ((k - w) div w)" by (rule le_div_geq)
  then show "(k - w) div w = k div w - 1" by linarith
  from le have "k mod w = (k - w) mod w" by (rule le_mod_geq)
  then show "(k - w) mod w = k mod w" by (rule sym)
qed

lemma nbr_bound:
  assumes w: "0 < w" and k: "k < w * h" and n: "nbr w h k k'"
  shows "k' < w * h"
proof -
  from w k have kd: "k div w < h" by (simp add: lt_iff_div)
  from n consider
      (right) "k mod w < w - 1" "k' = k + 1"
    | (left) "0 < k mod w" "k' = k - 1"
    | (down) "k div w < h - 1" "k' = k + w"
    | (up) "0 < k div w" "k' = k - w"
    by (auto simp: nbr_def)
  then show ?thesis
  proof cases
    case right
    then have "k' div w = k div w" by (simp only: succ_divmod)
    with kd w show ?thesis by (simp only: lt_iff_div)
  next
    case left
    with k show ?thesis by arith
  next
    case down
    with w have "k' div w = k div w + 1" by simp
    with down w show ?thesis by (simp only: lt_iff_div)
  next
    case up
    with k show ?thesis by arith
  qed
qed


lemma whiteAt_update:
  "k < n \<Longrightarrow> length d = 4 * n \<Longrightarrow>
   whiteAt (d[4 * k := 255, 4 * k + 1 := 255, 4 * k + 2 := 255, 4 * k + 3 := 255]) k"
  by (simp add: whiteAt_def)

lemma nth_update_keep: "d ! j = v \<Longrightarrow> d[i := v] ! j = v"
  by (cases "i = j"; cases "i < length d") (simp_all add: list_update_beyond)

lemma whiteAt_update_other:
  "whiteAt d k1 \<Longrightarrow>
   whiteAt (d[4 * k := 255, 4 * k + 1 := 255, 4 * k + 2 := 255, 4 * k + 3 := 255]) k1"
  by (simp add: whiteAt_def nth_update_keep)

lemma sameAt_update_other:
  "k1 \<noteq> k \<Longrightarrow> sameAt d d0 k1 \<Longrightarrow>
   sameAt (d[4 * k := 255, 4 * k + 1 := 255, 4 * k + 2 := 255, 4 * k + 3 := 255]) d0 k1"
  by (simp add: sameAt_def nth_list_update)

lemma pop_midInv:
  assumes inv: "fillInv w h cm k0 m0 f" and ne: "stack f \<noteq> []" and idx: "last (stack f) = 4 * k"
  defines "md \<equiv> (maskData f)[4 * k := 255, 4 * k + 1 := 255, 4 * k + 2 := 255, 4 * k + 3 := 255]"
  shows "midInv w h cm k0 m0 k (f\<lparr>stack := butlast (stack f), maskData := md\<rparr>)"
proof -
  from inv have base: "baseInv w h cm k0 m0 f" and dn: "\<forall>k<w * h. doneAt w h cm f k"
    by (simp_all add: fillInv_def)
  from ne idx have mem: "4 * k \<in> set (stack f)" by (metis last_in_set)
  with base have kb: "k < w * h" and kv: "visited f ! k"
    by (auto simp: baseInv_def)
  have sub: "set (butlast (stack f)) \<subseteq> set (stack f)"
    by (auto dest: in_set_butlastD)
  have "stack f = butlast (stack f) @ [4 * k]"
    using ne idx by (metis append_butlast_last_id)
  then have "set (stack f) = set (butlast (stack f) @ [4 * k])" by simp
  then have stk: "set (stack f) \<subseteq> insert (4 * k) (set (butlast (stack f)))" by simp
  let ?f = "f\<lparr>stack := butlast (stack f), maskData := md\<rparr>"
  have same': "\<forall>k1<w * h. \<not> visited f ! k1 \<longrightarrow> sameAt md m0 k1"
  proof (intro allI impI)
    fix k1 assume k1: "k1 < w * h" "\<not> visited f ! k1"
    with kv have "k1 \<noteq> k" by auto
    moreover from base k1 have "sameAt (maskData f) m0 k1" by (simp add: baseInv_def)
    ultimately show "sameAt md m0 k1" unfolding md_def by (rule sameAt_update_other)
  qed
  have len: "length md = 4 * (w * h)"
    using base by (simp add: md_def baseInv_def)
  have b': "baseInv w h cm k0 m0 ?f"
    unfolding baseInv_def
    using same' len sub base[unfolded baseInv_def] by (simp add: subset_iff)
  have d': "\<forall>k1<w * h. k1 \<noteq> k \<longrightarrow> doneAt w h cm ?f k1"
  proof (intro allI impI)
    fix k1 assume k1: "k1 < w * h" "k1 \<noteq> k"
    with dn have d: "doneAt w h cm f k1" by simp
    from k1 stk have ns: "4 * k1 \<notin> set (butlast (stack f)) \<Longrightarrow> 4 * k1 \<notin> set (stack f)" by auto
    have wh: "whiteAt (maskData f) k1 \<Longrightarrow> whiteAt md k1"
      unfolding md_def by (rule whiteAt_update_other)
    from d ns wh show "doneAt w h cm ?f k1"
      unfolding doneAt_def by simp
  qed
  have w': "whiteAt md k"
    unfolding md_def using kb base by (intro whiteAt_update[of k "w * h"]) (simp_all add: baseInv_def)
  show ?thesis
    using b' d' kb kv w' by (simp add: midInv_def)
qed


lemma nth_update_mono: "v ! j \<Longrightarrow> v[n := True] ! j"
  by (cases "n = j"; cases "n < length v") (simp_all add: list_update_beyond)

lemma push_visited_mono:
  "visited f ! j \<Longrightarrow> visited (pushIfMatch cm i f) ! j"
  by (simp add: pushIfMatch_def nth_update_mono)

lemma closedAt_mono:
  "closedAt w h cm v k \<Longrightarrow> closedAt w h cm (v[n := True]) k"
  by (simp add: closedAt_def nth_update_mono)

lemma push_midInv:
  assumes mid: "midInv w h cm k0 m0 k f" and nb: "nbr w h k n"
  shows "midInv w h cm k0 m0 k (pushIfMatch cm (4 * n) f)"
    and "cm (4 * n) \<longrightarrow> visited (pushIfMatch cm (4 * n) f) ! n"
proof -
  from mid have base: "baseInv w h cm k0 m0 f"
    and dn: "\<forall>k1<w * h. k1 \<noteq> k \<longrightarrow> doneAt w h cm f k1"
    and kb: "k < w * h" and kv: "visited f ! k" and kw: "whiteAt (maskData f) k"
    by (simp_all add: midInv_def)
  from base have w: "0 < w" and lv: "length (visited f) = w * h"
    and snd: "\<forall>k<w * h. visited f ! k \<longrightarrow> k \<in> reachK w h cm k0"
    and sme: "\<forall>k<w * h. \<not> visited f ! k \<longrightarrow> sameAt (maskData f) m0 k"
    and stk: "\<forall>i\<in>set (stack f). 4 dvd i \<and> i div 4 < w * h \<and> visited f ! (i div 4)"
    and seed: "k0 < w * h" "visited f ! k0"
    and lm: "length (maskData f) = 4 * (w * h)"
    by (simp_all add: baseInv_def)
  from w kb nb have nbd: "n < w * h" by (rule nbr_bound)
  from snd kb kv have kr: "k \<in> reachK w h cm k0" by simp
  show "midInv w h cm k0 m0 k (pushIfMatch cm (4 * n) f)"
  proof (cases "\<not> visitedAt (visited f) n \<and> cm (4 * n)")
    case False
    then have "pushIfMatch cm (4 * n) f = f" by (auto simp: pushIfMatch_def)
    with mid show ?thesis by simp
  next
    case True
    then have cmn: "cm (4 * n)" and nv: "\<not> visited f ! n"
      using nbd lv by (simp_all add: visitedAt_def)
    define v' where "v' = (visited f)[n := True]"
    define f' where "f' = f\<lparr>visited := v', stack := stack f @ [4 * n]\<rparr>"
    from True have eq: "pushIfMatch cm (4 * n) f = f'"
      by (simp add: pushIfMatch_def f'_def v'_def)
    have mono: "\<And>j. visited f ! j \<Longrightarrow> v' ! j"
      unfolding v'_def by (rule nth_update_mono)
    have vn: "v' ! n" using nbd lv by (simp add: v'_def)
    have other: "\<And>j. j \<noteq> n \<Longrightarrow> v' ! j = visited f ! j" by (simp add: v'_def)
    from kr nb cmn have nr: "n \<in> reachK w h cm k0" by (rule reachK_step)
    have b1: "\<forall>i\<in>set (stack f'). 4 dvd i \<and> i div 4 < w * h \<and> visited f' ! (i div 4)"
      using stk mono vn nbd by (auto simp: f'_def)
    have b2: "\<forall>k1<w * h. visited f' ! k1 \<longrightarrow> k1 \<in> reachK w h cm k0"
    proof (intro allI impI)
      fix k1 assume "k1 < w * h" "visited f' ! k1"
      then show "k1 \<in> reachK w h cm k0"
        using snd nr other[of k1] by (cases "k1 = n") (simp_all add: f'_def)
    qed
    have b3: "\<forall>k1<w * h. \<not> visited f' ! k1 \<longrightarrow> sameAt (maskData f') m0 k1"
    proof (intro allI impI)
      fix k1 assume "k1 < w * h" "\<not> visited f' ! k1"
      then show "sameAt (maskData f') m0 k1"
        using sme vn other[of k1] by (cases "k1 = n") (simp_all add: f'_def)
    qed
    have base': "baseInv w h cm k0 m0 f'"
      unfolding baseInv_def using b1 b2 b3 w lm seed mono[of k0] lv
      by (simp add: f'_def v'_def)
    have dn': "\<forall>k1<w * h. k1 \<noteq> k \<longrightarrow> doneAt w h cm f' k1"
    proof (intro allI impI)
      fix k1 assume k1: "k1 < w * h" "k1 \<noteq> k"
      with dn have d: "doneAt w h cm f k1" by simp
      show "doneAt w h cm f' k1"
      proof (cases "k1 = n")
        case True
        then show ?thesis by (simp add: doneAt_def f'_def)
      next
        case False
        with d other[of k1] show ?thesis
          by (auto simp: doneAt_def f'_def v'_def intro: closedAt_mono)
      qed
    qed
    have "midInv w h cm k0 m0 k f'"
      unfolding midInv_def using base' dn' kb mono[OF kv] kw by (simp add: f'_def)
    with eq show ?thesis by simp
  qed
  show "cm (4 * n) \<longrightarrow> visited (pushIfMatch cm (4 * n) f) ! n"
    using nbd lv by (auto simp: pushIfMatch_def visitedAt_def)
qed


lemma finite_unvisited: "finite (unvisited n v)"
  by (simp add: unvisited_def)

lemma push_measure:
  assumes "length (visited f) = n" and "i div 4 < n"
  shows "fillMeasure n (pushIfMatch cm i f) \<le> fillMeasure n f"
proof (cases "\<not> visitedAt (visited f) (i div 4) \<and> cm i")
  case False
  then have "pushIfMatch cm i f = f" by (auto simp: pushIfMatch_def)
  then show ?thesis by simp
next
  case True
  with assms have nv: "i div 4 \<in> unvisited n (visited f)"
    by (simp add: unvisited_def visitedAt_def)
  have "unvisited n ((visited f)[i div 4 := True]) = unvisited n (visited f) - {i div 4}"
    using assms by (auto simp: unvisited_def nth_list_update)
  then have "card (unvisited n ((visited f)[i div 4 := True])) = card (unvisited n (visited f)) - 1"
    using nv by (simp add: finite_unvisited)
  moreover from nv have "0 < card (unvisited n (visited f))"
    using finite_unvisited[of n "visited f"] by (auto simp: card_gt_0_iff)
  ultimately show ?thesis
    using True by (simp add: fillMeasure_def pushIfMatch_def)
qed

lemma push_length: "length (visited (pushIfMatch cm i f)) = length (visited f)"
  by (simp add: pushIfMatch_def)

lemma midInv_fillInv:
  assumes mid: "midInv w h cm k0 m0 k f" and cl: "closedAt w h cm (visited f) k"
  shows "fillInv w h cm k0 m0 f"
proof -
  have "\<forall>k1<w * h. doneAt w h cm f k1"
  proof (intro allI impI)
    fix k1 assume "k1 < w * h"
    with mid cl show "doneAt w h cm f k1"
      by (cases "k1 = k") (simp_all add: midInv_def doneAt_def)
  qed
  with mid show ?thesis by (simp add: fillInv_def midInv_def)
qed

lemma cond_push_midInv:
  assumes "midInv w h cm k0 m0 k f" and "c \<Longrightarrow> nbr w h k n"
  shows "midInv w h cm k0 m0 k (if c then pushIfMatch cm (4 * n) f else f)"
proof (cases c)
  case True
  with assms have "midInv w h cm k0 m0 k (pushIfMatch cm (4 * n) f)"
    by (intro push_midInv(1)) simp_all
  with True show ?thesis by simp
next
  case False
  with assms show ?thesis by simp
qed

lemma cond_push_visited:
  assumes "midInv w h cm k0 m0 k f" and "c \<Longrightarrow> nbr w h k n" and "c" and "cm (4 * n)"
  shows "visited (if c then pushIfMatch cm (4 * n) f else f) ! n"
  using push_midInv(2)[OF assms(1) assms(2)[OF assms(3)]] assms(3,4) by simp

lemma cond_push_mono:
  "visited f ! j \<Longrightarrow> visited (if c then pushIfMatch cm i f else f) ! j"
  by (simp add: push_visited_mono)

lemma cond_push_length:
  "length (visited (if c then pushIfMatch cm i f else f)) = length (visited f)"
  by (simp add: push_length)

lemma cond_push_measure:
  assumes "length (visited f) = n" and "c \<Longrightarrow> k' < n"
  shows "fillMeasure n (if c then pushIfMatch cm (4 * k') f else f) \<le> fillMeasure n f"
proof (cases c)
  case True
  with assms have "fillMeasure n (pushIfMatch cm (4 * k') f) \<le> fillMeasure n f"
    by (intro push_measure) simp_all
  with True show ?thesis by simp
next
  case False
  then show ?thesis by simp
qed

lemma floodStep_unfold:
  assumes idx: "last (stack f) = 4 * k"
  shows "floodStep w h cm f =
     (let f0 = f\<lparr>stack := butlast (stack f),
                 maskData := (maskData f)[4 * k := 255, 4 * k + 1 := 255, 4 * k + 2 := 255, 4 * k + 3 := 255]\<rparr>;
          f1 = (if k mod w < w - 1 then pushIfMatch cm (4 * (k + 1)) f0 else f0);
          f2 = (if 0 < k mod w then pushIfMatch cm (4 * (k - 1)) f1 else f1);
          f3 = (if k div w < h - 1 then pushIfMatch cm (4 * (k + w)) f2 else f2)
      in (if 0 < k div w then pushIfMatch cm (4 * (k - w)) f3 else f3))"
proof -
  have e: "4 * k + 4 = 4 * (k + 1)" "4 * k - 4 = 4 * (k - 1)"
          "4 * k + w * 4 = 4 * (k + w)" "4 * k - w * 4 = 4 * (k - w)" "4 * k div 4 = k"
    by simp_all
  show ?thesis
    unfolding floodStep_def Let_def idx e ..
qed

lemma floodStep_inv:
  assumes inv: "fillInv w h cm k0 m0 f" and ne: "stack f \<noteq> []"
  shows "fillInv w h cm k0 m0 (floodStep w h cm f)"
    and "fillMeasure (w * h) (floodStep w h cm f) < fillMeasure (w * h) f"
proof -
  from inv have base: "baseInv w h cm k0 m0 f" by (simp add: fillInv_def)
  from ne have "last (stack f) \<in> set (stack f)" by simp
  with base have "4 dvd last (stack f)" by (simp add: baseInv_def)
  then obtain k where idx: "last (stack f) = 4 * k" by (auto simp: dvd_def)
  define md where "md = (maskData f)[4 * k := 255, 4 * k + 1 := 255, 4 * k + 2 := 255, 4 * k + 3 := 255]"
  define f0 where "f0 = f\<lparr>stack := butlast (stack f), maskData := md\<rparr>"
  define f1 where "f1 = (if k mod w < w - 1 then pushIfMatch cm (4 * (k + 1)) f0 else f0)"
  define f2 where "f2 = (if 0 < k mod w then pushIfMatch cm (4 * (k - 1)) f1 else f1)"
  define f3 where "f3 = (if k div w < h - 1 then pushIfMatch cm (4 * (k + w)) f2 else f2)"
  define f4 where "f4 = (if 0 < k div w then pushIfMatch cm (4 * (k - w)) f3 else f3)"
  have step: "floodStep w h cm f = f4"
    unfolding floodStep_unfold[OF idx] Let_def f4_def f3_def f2_def f1_def f0_def md_def ..
  have m0: "midInv w h cm k0 m0 k f0"
    unfolding f0_def md_def using inv ne idx by (rule pop_midInv)
  have n1: "k mod w < w - 1 \<Longrightarrow> nbr w h k (k + 1)"
    and n2: "0 < k mod w \<Longrightarrow> nbr w h k (k - 1)"
    and n3: "k div w < h - 1 \<Longrightarrow> nbr w h k (k + w)"
    and n4: "0 < k div w \<Longrightarrow> nbr w h k (k - w)"
    by (simp_all add: nbr_def)
  have m1: "midInv w h cm k0 m0 k f1"
    unfolding f1_def using m0 n1 by (rule cond_push_midInv)
  have m2: "midInv w h cm k0 m0 k f2"
    unfolding f2_def using m1 n2 by (rule cond_push_midInv)
  have m3: "midInv w h cm k0 m0 k f3"
    unfolding f3_def using m2 n3 by (rule cond_push_midInv)
  have m4: "midInv w h cm k0 m0 k f4"
    unfolding f4_def using m3 n4 by (rule cond_push_midInv)
  have c1: "k mod w < w - 1 \<Longrightarrow> cm (4 * (k + 1)) \<Longrightarrow> visited f1 ! (k + 1)"
    unfolding f1_def using m0 n1 by (rule cond_push_visited)
  have c2: "0 < k mod w \<Longrightarrow> cm (4 * (k - 1)) \<Longrightarrow> visited f2 ! (k - 1)"
    unfolding f2_def using m1 n2 by (rule cond_push_visited)
  have c3: "k div w < h - 1 \<Longrightarrow> cm (4 * (k + w)) \<Longrightarrow> visited f3 ! (k + w)"
    unfolding f3_def using m2 n3 by (rule cond_push_visited)
  have c4: "0 < k div w \<Longrightarrow> cm (4 * (k - w)) \<Longrightarrow> visited f4 ! (k - w)"
    unfolding f4_def using m3 n4 by (rule cond_push_visited)
  have p2: "\<And>j. visited f1 ! j \<Longrightarrow> visited f2 ! j"
    unfolding f2_def by (rule cond_push_mono)
  have p3: "\<And>j. visited f2 ! j \<Longrightarrow> visited f3 ! j"
    unfolding f3_def by (rule cond_push_mono)
  have p4: "\<And>j. visited f3 ! j \<Longrightarrow> visited f4 ! j"
    unfolding f4_def by (rule cond_push_mono)
  have cl: "closedAt w h cm (visited f4) k"
    unfolding closedAt_def nbr_def
    using c1 c2 c3 c4 p2 p3 p4 by blast
  from m4 cl have "fillInv w h cm k0 m0 f4" by (rule midInv_fillInv)
  with step show "fillInv w h cm k0 m0 (floodStep w h cm f)" by simp
  have wpos: "0 < w" and lv: "length (visited f) = w * h" and kb: "k < w * h"
    using m0 base by (simp_all add: midInv_def baseInv_def)
  have l0: "length (visited f0) = w * h" by (simp add: f0_def lv)
  have l1: "length (visited f1) = w * h" unfolding f1_def cond_push_length by (rule l0)
  have l2: "length (visited f2) = w * h" unfolding f2_def cond_push_length by (rule l1)
  have l3: "length (visited f3) = w * h" unfolding f3_def cond_push_length by (rule l2)
  have b1: "k mod w < w - 1 \<Longrightarrow> k + 1 < w * h" using nbr_bound[OF wpos kb n1] .
  have b2: "0 < k mod w \<Longrightarrow> k - 1 < w * h" using nbr_bound[OF wpos kb n2] .
  have b3: "k div w < h - 1 \<Longrightarrow> k + w < w * h" using nbr_bound[OF wpos kb n3] .
  have b4: "0 < k div w \<Longrightarrow> k - w < w * h" using nbr_bound[OF wpos kb n4] .
  have "fillMeasure (w * h) f0 < fillMeasure (w * h) f"
    using ne by (simp add: fillMeasure_def f0_def)
  moreover have "fillMeasure (w * h) f1 \<le> fillMeasure (w * h) f0"
    unfolding f1_def using l0 b1 by (rule cond_push_measure)
  moreover have "fillMeasure (w * h) f2 \<le> fillMeasure (w * h) f1"
    unfolding f2_def using l1 b2 by (rule cond_push_measure)
  moreover have "fillMeasure (w * h) f3 \<le> fillMeasure (w * h) f2"
    unfolding f3_def using l2 b3 by (rule cond_push_measure)
  moreover have "fillMeasure (w * h) f4 \<le> fillMeasure (w * h) f3"
    unfolding f4_def using l3 b4 by (rule cond_push_measure)
  ultimately have "fillMeasure (w * h) f4 < fillMeasure (w * h) f" by linarith
  with step show "fillMeasure (w * h) (floodStep w h cm f) < fillMeasure (w * h) f" by simp
qed

lemma reachK_visited:
  assumes inv: "fillInv w h cm k0 m0 f" and emp: "stack f = []"
  shows "k \<in> reachK w h cm k0 \<Longrightarrow> k < w * h \<and> visited f ! k"
proof (induction rule: reachK.induct)
  case reachK_seed
  from inv show ?case by (simp add: fillInv_def baseInv_def)
next
  case (reachK_step k k')
  from inv have w: "0 < w" by (simp add: fillInv_def baseInv_def)
  from reachK_step.IH inv emp have "closedAt w h cm (visited f) k"
    by (simp add: fillInv_def doneAt_def)
  with reachK_step.hyps have "visited f ! k'" by (simp add: closedAt_def)
  moreover have "k' < w * h"
    using w reachK_step.IH reachK_step.hyps(2) by (blast intro: nbr_bound)
  ultimately show ?case by simp
qed

lemma floodLoop_total:
  assumes "fillInv w h cm k0 m0 f"
  shows "\<exists>md. floodLoop w h cm f = Some md \<and> length md = 4 * (w * h) \<and>
           (\<forall>k<w * h. (k \<in> reachK w h cm k0 \<longrightarrow> whiteAt md k) \<and>
                       (k \<notin> reachK w h cm k0 \<longrightarrow> sameAt md m0 k))"
  using assms
proof (induction "fillMeasure (w * h) f" arbitrary: f rule: less_induct)
  case less
  show ?case
  proof (cases "stack f = []")
    case True
    from less.prems have base: "baseInv w h cm k0 m0 f"
      and dn: "\<forall>k<w * h. doneAt w h cm f k" by (simp_all add: fillInv_def)
    have "\<forall>k<w * h. (k \<in> reachK w h cm k0 \<longrightarrow> whiteAt (maskData f) k) \<and>
                       (k \<notin> reachK w h cm k0 \<longrightarrow> sameAt (maskData f) m0 k)"
    proof (intro allI impI conjI)
      fix k assume "k < w * h" "k \<in> reachK w h cm k0"
      with reachK_visited[OF less.prems True] dn True show "whiteAt (maskData f) k"
        by (simp add: doneAt_def)
    next
      fix k assume "k < w * h" "k \<notin> reachK w h cm k0"
      with base show "sameAt (maskData f) m0 k" by (auto simp: baseInv_def)
    qed
    moreover from True have "floodLoop w h cm f = Some (maskData f)"
      by (simp add: floodLoop.simps)
    moreover from base have "length (maskData f) = 4 * (w * h)" by (simp add: baseInv_def)
    ultimately show ?thesis by simp
  next
    case False
    from floodStep_inv[OF less.prems False]
    have "\<exists>md. floodLoop w h cm (floodStep w h cm f) = Some md \<and> length md = 4 * (w * h) \<and>
           (\<forall>k<w * h. (k \<in> reachK w h cm k0 \<longrightarrow> whiteAt md k) \<and>
                       (k \<notin> reachK w h cm k0 \<longrightarrow> sameAt md m0 k))"
      by (intro less.hyps)
    moreover from False have "floodLoop w h cm f = floodLoop w h cm (floodStep w h cm f)"
      by (subst floodLoop.simps) simp
    ultimately show ?thesis by simp
  qed
qed

lemma region_bounds:
  assumes "fst seed < w" "snd seed < h"
  shows "p \<in> region w h matches seed \<Longrightarrow> fst p < w \<and> snd p < h"
  by (induction rule: region.induct) (simp_all add: assms)

lemma region_cong:
  assumes "\<And>x y. x < w \<Longrightarrow> y < h \<Longrightarrow> m1 x y = m2 x y"
  shows "region w h m1 seed = region w h m2 seed"
proof -
  have "\<And>ma mb p. (\<And>x y. x < w \<Longrightarrow> y < h \<Longrightarrow> ma x y = mb x y) \<Longrightarrow>
          p \<in> region w h ma seed \<Longrightarrow> p \<in> region w h mb seed"
  proof -
    fix ma mb :: "nat \<Rightarrow> nat \<Rightarrow> bool" and p
    assume eq: "\<And>x y. x < w \<Longrightarrow> y < h \<Longrightarrow> ma x y = mb x y"
    assume "p \<in> region w h ma seed"
    then show "p \<in> region w h mb seed"
    proof (induction rule: region.induct)
      case region_seed
      show ?case by (rule region.region_seed)
    next
      case (region_step p q)
      from region_step.hyps(3,4,5) eq have "mb (fst q) (snd q)" by simp
      with region_step.IH region_step.hyps(2,3,4) show ?case by (rule region.region_step)
    qed
  qed
  from this[of m1 m2] this[of m2 m1] assms show ?thesis by auto
qed

lemma adjacent4_nbr:
  assumes "adjacent4 (x, y) (x', y')" and "x < w" "y < h" "x' < w" "y' < h"
  shows "nbr w h (y * w + x) (y' * w + x')"
proof -
  from assms(2,4) have dm: "(y * w + x) mod w = x" "(y * w + x) div w = y" by simp_all
  from assms(1) consider
      (down) "x = x'" "y' = y + 1" | (up) "x = x'" "y = y' + 1"
    | (right) "y = y'" "x' = x + 1" | (left) "y = y'" "x = x' + 1"
    by (auto simp: adjacent4_def)
  then show ?thesis
  proof cases
    case down
    with assms(5) have "y < h - 1" by simp
    with down show ?thesis unfolding nbr_def dm by simp
  next
    case up
    then show ?thesis unfolding nbr_def dm by simp
  next
    case right
    with assms(4) have "x < w - 1" by simp
    with right show ?thesis unfolding nbr_def dm by simp
  next
    case left
    then show ?thesis unfolding nbr_def dm by simp
  qed
qed

lemma nbr_adjacent4:
  assumes "nbr w h k k'" and "0 < w"
  shows "adjacent4 (k mod w, k div w) (k' mod w, k' div w)"
proof -
  from assms(1) consider
      (right) "k mod w < w - 1" "k' = k + 1"
    | (left) "0 < k mod w" "k' = k - 1"
    | (down) "k div w < h - 1" "k' = k + w"
    | (up) "0 < k div w" "k' = k - w"
    by (auto simp: nbr_def)
  then show ?thesis
  proof cases
    case right
    from succ_divmod[OF right(1)] have "k' div w = k div w" "k' mod w = k mod w + 1"
      unfolding right(2) by blast+
    then show ?thesis unfolding adjacent4_def by simp
  next
    case left
    from pred_divmod(1,2)[OF left(1)] have "k' div w = k div w" "k' mod w = k mod w - 1"
      unfolding left(2) by blast+
    with left(1) show ?thesis unfolding adjacent4_def by simp
  next
    case down
    with assms(2) have "k' div w = k div w + 1" "k' mod w = k mod w" by simp_all
    then show ?thesis unfolding adjacent4_def by simp
  next
    case up
    from sub_divmod(1,2)[OF up(1)] have "k' div w = k div w - 1" "k' mod w = k mod w"
      unfolding up(2) by blast+
    with up(1) show ?thesis unfolding adjacent4_def by simp
  qed
qed

lemma region_reachK:
  assumes sx: "sx < w" and sy: "sy < h"
    and m: "\<And>x y. x < w \<Longrightarrow> y < h \<Longrightarrow> matches x y = cm (4 * (y * w + x))"
  shows "p \<in> region w h matches (sx, sy) \<Longrightarrow>
         snd p * w + fst p \<in> reachK w h cm (sy * w + sx)"
proof (induction rule: region.induct)
  case region_seed
  show ?case by (simp add: reachK_seed)
next
  case (region_step p q)
  from region_step.hyps(1) sx sy have pb: "fst p < w" "snd p < h"
    using region_bounds[of "(sx, sy)" w h p matches] by simp_all
  have "nbr w h (snd p * w + fst p) (snd q * w + fst q)"
    using adjacent4_nbr[of "fst p" "snd p" "fst q" "snd q" w h] region_step.hyps pb by simp
  moreover have "cm (4 * (snd q * w + fst q))"
    using m region_step.hyps by simp
  ultimately show ?case using region_step.IH by (blast intro: reachK_step)
qed

lemma reachK_region:
  assumes w: "0 < w" and k0: "k0 < w * h"
    and m: "\<And>x y. x < w \<Longrightarrow> y < h \<Longrightarrow> matches x y = cm (4 * (y * w + x))"
  shows "k \<in> reachK w h cm k0 \<Longrightarrow>
         k < w * h \<and> (k mod w, k div w) \<in> region w h matches (k0 mod w, k0 div w)"
proof (induction rule: reachK.induct)
  case reachK_seed
  from k0 show ?case by (simp add: region_seed)
next
  case (reachK_step k k')
  from reachK_step.IH have kb: "k < w * h" by simp
  with w reachK_step.hyps(2) have kb': "k' < w * h" by (blast intro: nbr_bound)
  with w have b: "k' mod w < w" "k' div w < h" by (simp_all add: lt_iff_div)
  have e: "k' div w * w + k' mod w = k'" by simp
  from reachK_step.hyps(3) have "cm (4 * (k' div w * w + k' mod w))" unfolding e .
  then have mt: "matches (k' mod w) (k' div w)" unfolding m[OF b] .
  have adj: "adjacent4 (k mod w, k div w) (k' mod w, k' div w)"
    using reachK_step.hyps(2) w by (rule nbr_adjacent4)
  from reachK_step.IH have pin: "(k mod w, k div w) \<in> region w h matches (k0 mod w, k0 div w)" ..
  have "(k' mod w, k' div w) \<in> region w h matches (k0 mod w, k0 div w)"
  proof (rule region_step[OF pin adj])
    show "fst (k' mod w, k' div w) < w" using b by simp
    show "snd (k' mod w, k' div w) < h" using b by simp
    show "matches (fst (k' mod w, k' div w)) (snd (k' mod w, k' div w))" using mt by simp
  qed
  with kb' show ?case by simp
qed

lemma region_iff_reachK:
  assumes sx: "sx < w" and sy: "sy < h" and x: "x < w" and y: "y < h"
    and m: "\<And>x y. x < w \<Longrightarrow> y < h \<Longrightarrow> matches x y = cm (4 * (y * w + x))"
  shows "((x, y) \<in> region w h matches (sx, sy)) = (y * w + x \<in> reachK w h cm (sy * w + sx))"
proof
  assume "(x, y) \<in> region w h matches (sx, sy)"
  from region_reachK[OF sx sy m this] show "y * w + x \<in> reachK w h cm (sy * w + sx)" by simp
next
  assume r: "y * w + x \<in> reachK w h cm (sy * w + sx)"
  from sx have w: "0 < w" by simp
  from sx sy have k0: "sy * w + sx < w * h" by (rule index_bound)
  from reachK_region[OF w k0 m r] sx x show "(x, y) \<in> region w h matches (sx, sy)" by simp
qed

lemma init_fillInv:
  assumes w: "0 < w" and k0: "k0 < w * h" and lm: "length m0 = 4 * (w * h)"
  shows "fillInv w h cm k0 m0
           \<lparr>stack = [4 * k0], visited = (replicate (w * h) False)[k0 := True], maskData = m0\<rparr>"
proof -
  let ?v = "(replicate (w * h) False)[k0 := True]"
  have v: "\<And>k. k < w * h \<Longrightarrow> ?v ! k = (k = k0)"
    using k0 by (simp add: nth_list_update)
  have "baseInv w h cm k0 m0 \<lparr>stack = [4 * k0], visited = ?v, maskData = m0\<rparr>"
    unfolding baseInv_def using w k0 lm v by (simp add: sameAt_def reachK_seed)
  moreover have "\<forall>k<w * h. doneAt w h cm \<lparr>stack = [4 * k0], visited = ?v, maskData = m0\<rparr> k"
    unfolding doneAt_def using v by simp
  ultimately show ?thesis by (simp add: fillInv_def)
qed

lemma seed_index:
  assumes "0 \<le> X" "X < int w" "0 \<le> Y" "Y < int h"
  shows "nat X < w" "nat Y < h" "nat Y * w + nat X < w * h"
proof -
  from assms show a: "nat X < w" and b: "nat Y < h" by simp_all
  then show "nat Y * w + nat X < w * h" by (rule index_bound)
qed

lemma performFloodFill_bytes:
  assumes src: "sourceImageData s = Some srcData"
    and mask: "maskCanvases s (activeLayerId s) = Some m"
    and lm: "length (data m) = 4 * (dimensions_width s * dimensions_height s)"
    and inb: "0 \<le> \<lfloor>X\<rfloor>" "\<lfloor>X\<rfloor> < int (dimensions_width s)"
             "0 \<le> \<lfloor>Y\<rfloor>" "\<lfloor>Y\<rfloor> < int (dimensions_height s)"
  defines "w \<equiv> dimensions_width s" and "h \<equiv> dimensions_height s"
  defines "k0 \<equiv> nat \<lfloor>Y\<rfloor> * w + nat \<lfloor>X\<rfloor>"
  defines "cm \<equiv> colorMatch srcData (byteAt srcData (4 * k0)) (byteAt srcData (4 * k0 + 1))
                   (byteAt srcData (4 * k0 + 2)) (mulD (tolerance s) (toDouble 2.55))"
  shows "\<exists>md. performFloodFill X Y s =
                 Some (captureSnapshot
                         (s\<lparr>maskCanvases := (maskCanvases s)(activeLayerId s \<mapsto> m\<lparr>data := md\<rparr>)\<rparr>)) \<and>
               length md = 4 * (w * h) \<and>
               (\<forall>k<w * h. (k \<in> reachK w h cm k0 \<longrightarrow> whiteAt md k) \<and>
                           (k \<notin> reachK w h cm k0 \<longrightarrow> sameAt md (data m) k))"
proof -
  from inb have kb: "k0 < w * h" and wpos: "0 < w"
    unfolding k0_def w_def h_def using seed_index[of "\<lfloor>X\<rfloor>" "dimensions_width s" "\<lfloor>Y\<rfloor>" "dimensions_height s"]
    by simp_all
  from lm have lm': "length (data m) = 4 * (w * h)" by (simp add: w_def h_def)
  from init_fillInv[OF wpos kb lm', of cm]
  obtain md where loop: "floodLoop w h cm
        \<lparr>stack = [4 * k0], visited = (replicate (w * h) False)[k0 := True], maskData = data m\<rparr> = Some md"
    and len: "length md = 4 * (w * h)"
    and char: "\<forall>k<w * h. (k \<in> reachK w h cm k0 \<longrightarrow> whiteAt md k) \<and>
                           (k \<notin> reachK w h cm k0 \<longrightarrow> sameAt md (data m) k)"
    using floodLoop_total by blast
  have e: "(nat \<lfloor>Y\<rfloor> * dimensions_width s + nat \<lfloor>X\<rfloor>) * 4 = 4 * k0"
    by (simp add: k0_def w_def)
  have nb: "\<not> (\<lfloor>X\<rfloor> < 0 \<or> \<lfloor>X\<rfloor> \<ge> int (dimensions_width s) \<or> \<lfloor>Y\<rfloor> < 0 \<or> \<lfloor>Y\<rfloor> \<ge> int (dimensions_height s))"
    using inb by simp
  have "performFloodFill X Y s =
          Some (captureSnapshot
                  (s\<lparr>maskCanvases := (maskCanvases s)(activeLayerId s \<mapsto> m\<lparr>data := md\<rparr>)\<rparr>))"
    unfolding performFloodFill_def Let_def src mask option.case e if_not_P[OF nb]
    using loop by (simp add: cm_def w_def h_def getImageData_def putImageData_def)
  with len char show ?thesis by blast
qed

lemma captureSnapshot_fields:
  "maskCanvases (captureSnapshot s) = maskCanvases s"
  "sourceImageData (captureSnapshot s) = sourceImageData s"
  "dimensions_width (captureSnapshot s) = dimensions_width s"
  "dimensions_height (captureSnapshot s) = dimensions_height s"
  "activeLayerId (captureSnapshot s) = activeLayerId s"
  "tolerance (captureSnapshot s) = tolerance s"
  "layers (captureSnapshot s) = layers s"
  "polyPoints (captureSnapshot s) = polyPoints s"
  by (simp_all add: captureSnapshot_def handleSnapshot_def pushToHistory_def)

lemma captureSnapshot_history:
  "historyFuture (captureSnapshot s) = []"
  "historyPast (captureSnapshot s) =
     historyPast s @ [\<lparr>layers_item = layers s, masks_item = currentMasks s\<rparr>]"
  by (simp_all add: captureSnapshot_def handleSnapshot_def pushToHistory_def)

lemma performFloodFill_outside:
  assumes "\<not> (0 \<le> \<lfloor>X\<rfloor> \<and> \<lfloor>X\<rfloor> < int (dimensions_width s) \<and>
              0 \<le> \<lfloor>Y\<rfloor> \<and> \<lfloor>Y\<rfloor> < int (dimensions_height s))"
  shows "performFloodFill X Y s = Some s"
proof -
  from assms have "\<lfloor>X\<rfloor> < 0 \<or> \<lfloor>X\<rfloor> \<ge> int (dimensions_width s) \<or>
                   \<lfloor>Y\<rfloor> < 0 \<or> \<lfloor>Y\<rfloor> \<ge> int (dimensions_height s)" by linarith
  then show ?thesis
    unfolding performFloodFill_def Let_def by (simp split: option.split)
qed

lemma colorMatch_pixelSimilar:
  assumes len: "length srcData = 4 * (w * h)"
    and b: "x < w" "y < h" "sx < w" "sy < h"
  shows "colorMatch srcData (byteAt srcData (4 * (sy * w + sx)))
           (byteAt srcData (4 * (sy * w + sx) + 1)) (byteAt srcData (4 * (sy * w + sx) + 2))
           T (4 * (y * w + x)) = pixelSimilar srcData w T sx sy x y"
proof -
  from b(1,2) have "y * w + x < w * h" by (rule index_bound)
  with len have i: "4 * (y * w + x) + 2 < length srcData" by simp
  from b(3,4) have "sy * w + sx < w * h" by (rule index_bound)
  with len have i0: "4 * (sy * w + sx) + 2 < length srcData" by simp
  from i i0 show ?thesis
    by (simp add: colorMatch_def pixelSimilar_def byteAt_def Let_def)
qed

lemma getPixel_whiteAt:
  "x < width c \<Longrightarrow> y < height c \<Longrightarrow> whiteAt (data c) (y * width c + x) \<Longrightarrow> getPixel c x y = white"
  by (simp add: getPixel_def whiteAt_def white_def Let_def)

lemma getPixel_sameAt:
  "x < width c \<Longrightarrow> y < height c \<Longrightarrow> width c' = width c \<Longrightarrow> height c' = height c \<Longrightarrow>
   sameAt (data c) (data c') (y * width c + x) \<Longrightarrow> getPixel c x y = getPixel c' x y"
  by (simp add: getPixel_def sameAt_def Let_def)

lemma performFloodFill_pixels:
  assumes src: "sourceImageData s = Some srcData"
    and ls: "length srcData = 4 * (dimensions_width s * dimensions_height s)"
    and mask: "maskCanvases s (activeLayerId s) = Some m"
    and wm: "width m = dimensions_width s" and hm: "height m = dimensions_height s"
    and lm: "length (data m) = 4 * (dimensions_width s * dimensions_height s)"
    and inb: "0 \<le> \<lfloor>X\<rfloor>" "\<lfloor>X\<rfloor> < int (dimensions_width s)"
             "0 \<le> \<lfloor>Y\<rfloor>" "\<lfloor>Y\<rfloor> < int (dimensions_height s)"
  shows "\<exists>s' m'. performFloodFill X Y s = Some s' \<and>
            maskCanvases s' = (maskCanvases s)(activeLayerId s \<mapsto> m') \<and>
            width m' = dimensions_width s \<and> height m' = dimensions_height s \<and>
            (\<forall>x<dimensions_width s. \<forall>y<dimensions_height s.
               getPixel m' x y =
                 (if (x, y) \<in> region (dimensions_width s) (dimensions_height s)
                                 (pixelSimilar srcData (dimensions_width s)
                                    (mulD (tolerance s) (toDouble 2.55))
                                    (nat \<lfloor>X\<rfloor>) (nat \<lfloor>Y\<rfloor>))
                                 (nat \<lfloor>X\<rfloor>, nat \<lfloor>Y\<rfloor>)
                  then white else getPixel m x y)) \<and>
            length (data m') = 4 * (dimensions_width s * dimensions_height s) \<and>
            s' = captureSnapshot (s\<lparr>maskCanvases := (maskCanvases s)(activeLayerId s \<mapsto> m')\<rparr>)"
proof -
  define w where "w = dimensions_width s"
  define h where "h = dimensions_height s"
  define sx where "sx = nat \<lfloor>X\<rfloor>"
  define sy where "sy = nat \<lfloor>Y\<rfloor>"
  define k0 where "k0 = sy * w + sx"
  define T where "T = mulD (tolerance s) (toDouble 2.55)"
  define cm where "cm = colorMatch srcData (byteAt srcData (4 * k0)) (byteAt srcData (4 * k0 + 1))
                   (byteAt srcData (4 * k0 + 2)) T"
  have sb: "sx < w" "sy < h"
    unfolding sx_def sy_def w_def h_def using seed_index(1,2)[OF inb] .
  from performFloodFill_bytes[OF src mask lm inb]
  obtain md where run: "performFloodFill X Y s =
        Some (captureSnapshot (s\<lparr>maskCanvases := (maskCanvases s)(activeLayerId s \<mapsto> m\<lparr>data := md\<rparr>)\<rparr>))"
    and len: "length md = 4 * (w * h)"
    and char: "\<forall>k<w * h. (k \<in> reachK w h cm k0 \<longrightarrow> whiteAt md k) \<and>
                           (k \<notin> reachK w h cm k0 \<longrightarrow> sameAt md (data m) k)"
    unfolding w_def h_def cm_def k0_def sx_def sy_def T_def by blast
  let ?m' = "m\<lparr>data := md\<rparr>"
  from ls have ls': "length srcData = 4 * (w * h)" by (simp add: w_def h_def)
  have m: "\<And>x y. x < w \<Longrightarrow> y < h \<Longrightarrow> pixelSimilar srcData w T sx sy x y = cm (4 * (y * w + x))"
    unfolding cm_def k0_def using colorMatch_pixelSimilar[OF ls' _ _ sb, symmetric] .
  have px: "\<forall>x<w. \<forall>y<h. getPixel ?m' x y =
               (if (x, y) \<in> region w h (pixelSimilar srcData w T sx sy) (sx, sy)
                then white else getPixel m x y)"
  proof (intro allI impI)
    fix x y assume x: "x < w" and y: "y < h"
    then have kb: "y * w + x < w * h" by (rule index_bound)
    have iff: "((x, y) \<in> region w h (pixelSimilar srcData w T sx sy) (sx, sy)) =
               (y * w + x \<in> reachK w h cm k0)"
      unfolding k0_def using sb x y m by (rule region_iff_reachK)
    show "getPixel ?m' x y =
               (if (x, y) \<in> region w h (pixelSimilar srcData w T sx sy) (sx, sy)
                then white else getPixel m x y)"
    proof (cases "y * w + x \<in> reachK w h cm k0")
      case True
      with char kb have "whiteAt md (y * w + x)" by simp
      then have "getPixel ?m' x y = white"
        using x y wm hm by (intro getPixel_whiteAt) (simp_all add: w_def h_def)
      with True iff show ?thesis by simp
    next
      case False
      with char kb have "sameAt md (data m) (y * w + x)" by simp
      then have "getPixel ?m' x y = getPixel m x y"
        using x y wm hm by (intro getPixel_sameAt) (simp_all add: w_def h_def)
      with False iff show ?thesis by simp
    qed
  qed
  show ?thesis
    using run px wm hm len
    unfolding w_def h_def sx_def sy_def T_def
    by (intro exI[of _ "captureSnapshot (s\<lparr>maskCanvases := (maskCanvases s)(activeLayerId s \<mapsto> ?m')\<rparr>)"]
              exI[of _ ?m']) (simp add: captureSnapshot_fields)
qed

lemma performFloodFill_nosource:
  "sourceImageData s = None \<Longrightarrow> performFloodFill X Y s = Some s"
  by (simp add: performFloodFill_def)

lemma performFloodFill_nomask:
  "maskCanvases s (activeLayerId s) = None \<Longrightarrow> performFloodFill X Y s = Some s"
  unfolding performFloodFill_def Let_def by (simp split: option.split)

lemma bytes_eqI:
  assumes l1: "length a = 4 * n" and l2: "length b = 4 * n"
    and eq: "\<And>k. k < n \<Longrightarrow> (whiteAt a k \<and> whiteAt b k) \<or> sameAt a b k"
  shows "a = b"
proof (rule nth_equalityI)
  from l1 l2 show "length a = length b" by simp
next
  fix i assume "i < length a"
  with l1 have k: "i div 4 < n" by simp
  have i: "i = 4 * (i div 4) + i mod 4" by simp
  have "i mod 4 < 4" by simp
  then consider "i mod 4 = 0" | "i mod 4 = 1" | "i mod 4 = 2" | "i mod 4 = 3" by linarith
  then have "a ! (4 * (i div 4) + i mod 4) = b ! (4 * (i div 4) + i mod 4)"
    using eq[OF k] by cases (auto simp: whiteAt_def sameAt_def)
  with i show "a ! i = b ! i" by simp
qed

lemma performFloodFill_twice:
  assumes wf: "\<forall>m. maskCanvases s (activeLayerId s) = Some m \<longrightarrow>
                 length (data m) = 4 * (dimensions_width s * dimensions_height s)"
  shows "\<exists>s1 s2. performFloodFill X Y s = Some s1 \<and> performFloodFill X Y s1 = Some s2 \<and>
                 maskCanvases s2 = maskCanvases s1"
proof -
  consider (nosrc) "sourceImageData s = None"
    | (out) "\<not> (0 \<le> \<lfloor>X\<rfloor> \<and> \<lfloor>X\<rfloor> < int (dimensions_width s) \<and>
                0 \<le> \<lfloor>Y\<rfloor> \<and> \<lfloor>Y\<rfloor> < int (dimensions_height s))"
    | (nomask) "maskCanvases s (activeLayerId s) = None"
    | (run) srcData m where "sourceImageData s = Some srcData"
        "maskCanvases s (activeLayerId s) = Some m"
        "0 \<le> \<lfloor>X\<rfloor>" "\<lfloor>X\<rfloor> < int (dimensions_width s)"
        "0 \<le> \<lfloor>Y\<rfloor>" "\<lfloor>Y\<rfloor> < int (dimensions_height s)"
    by (cases "sourceImageData s"; cases "maskCanvases s (activeLayerId s)") auto
  then show ?thesis
  proof cases
    case nosrc
    then have "performFloodFill X Y s = Some s" by (rule performFloodFill_nosource)
    then show ?thesis by simp
  next
    case out
    then have "performFloodFill X Y s = Some s" by (rule performFloodFill_outside)
    then show ?thesis by simp
  next
    case nomask
    then have "performFloodFill X Y s = Some s" by (rule performFloodFill_nomask)
    then show ?thesis by simp
  next
    case run
    define w where "w = dimensions_width s"
    define h where "h = dimensions_height s"
    define k0 where "k0 = nat \<lfloor>Y\<rfloor> * w + nat \<lfloor>X\<rfloor>"
    define cm where "cm = colorMatch srcData (byteAt srcData (4 * k0)) (byteAt srcData (4 * k0 + 1))
                   (byteAt srcData (4 * k0 + 2)) (mulD (tolerance s) (toDouble 2.55))"
    from wf run(2) have lm: "length (data m) = 4 * (dimensions_width s * dimensions_height s)"
      by simp
    from performFloodFill_bytes[OF run(1,2) lm run(3-6)]
    obtain md where r1: "performFloodFill X Y s =
          Some (captureSnapshot (s\<lparr>maskCanvases := (maskCanvases s)(activeLayerId s \<mapsto> m\<lparr>data := md\<rparr>)\<rparr>))"
      and l1: "length md = 4 * (w * h)"
      and c1: "\<forall>k<w * h. (k \<in> reachK w h cm k0 \<longrightarrow> whiteAt md k) \<and>
                           (k \<notin> reachK w h cm k0 \<longrightarrow> sameAt md (data m) k)"
      unfolding w_def h_def cm_def k0_def by blast
    define s1 where "s1 = captureSnapshot (s\<lparr>maskCanvases := (maskCanvases s)(activeLayerId s \<mapsto> m\<lparr>data := md\<rparr>)\<rparr>)"
    have f1: "sourceImageData s1 = Some srcData"
      "maskCanvases s1 (activeLayerId s1) = Some (m\<lparr>data := md\<rparr>)"
      "dimensions_width s1 = dimensions_width s" "dimensions_height s1 = dimensions_height s"
      "tolerance s1 = tolerance s" "activeLayerId s1 = activeLayerId s"
      using run(1) by (simp_all add: s1_def captureSnapshot_fields)
    have lm1: "length (data (m\<lparr>data := md\<rparr>)) = 4 * (dimensions_width s1 * dimensions_height s1)"
      using l1 by (simp add: f1 w_def h_def)
    have inb1: "0 \<le> \<lfloor>X\<rfloor>" "\<lfloor>X\<rfloor> < int (dimensions_width s1)"
               "0 \<le> \<lfloor>Y\<rfloor>" "\<lfloor>Y\<rfloor> < int (dimensions_height s1)"
      using run(3-6) by (simp_all only: f1)
    from performFloodFill_bytes[OF f1(1,2) lm1 inb1]
    obtain md2 where r2: "performFloodFill X Y s1 =
          Some (captureSnapshot (s1\<lparr>maskCanvases :=
                  (maskCanvases s1)(activeLayerId s1 \<mapsto> m\<lparr>data := md\<rparr>\<lparr>data := md2\<rparr>)\<rparr>))"
      and l2: "length md2 = 4 * (w * h)"
      and c2: "\<forall>k<w * h. (k \<in> reachK w h cm k0 \<longrightarrow> whiteAt md2 k) \<and>
                           (k \<notin> reachK w h cm k0 \<longrightarrow> sameAt md2 md k)"
      unfolding f1(3,4,5) w_def h_def cm_def k0_def by auto
    have "md2 = md"
      using l2 l1
    proof (rule bytes_eqI)
      fix k assume "k < w * h"
      with c1 c2 show "(whiteAt md2 k \<and> whiteAt md k) \<or> sameAt md2 md k"
        by (cases "k \<in> reachK w h cm k0") simp_all
    qed
    then have "(maskCanvases s1)(activeLayerId s1 \<mapsto> m\<lparr>data := md\<rparr>\<lparr>data := md2\<rparr>) = maskCanvases s1"
      using f1(2) by (simp add: fun_upd_idem)
    with r2 have "\<exists>s2. performFloodFill X Y s1 = Some s2 \<and> maskCanvases s2 = maskCanvases s1"
      by (simp add: captureSnapshot_fields)
    with r1 show ?thesis unfolding s1_def by blast
  qed
qed

text \<open>
  C10. When the registry holds more than one layer and the removed layer is the active one,
  \<open>removeLayer\<close> makes the first layer of the registry as it was before the removal the
  active layer. When the active layer is that first layer, the active layer id is therefore
  the id just removed, which no layer of the new registry carries.
\<close>

theorem removeLayer_active_first:
  assumes "1 < length (layers s)" and "activeLayerId s = i"
  shows "activeLayerId (removeLayer i s) = layer_id (layers s ! 0) \<and>
         (layer_id (layers s ! 0) = i \<longrightarrow>
            activeLayerId (removeLayer i s) = i \<and>
            (\<forall>l\<in>set (layers (removeLayer i s)). layer_id l \<noteq> i))"
  using assms by (simp add: removeLayer_def pushToHistory_def Let_def)

theorem removeLayer_active_first_witness:
  "1 < length (layers exTwo) \<and> activeLayerId exTwo = ''fg'' \<and>
   layer_id (layers exTwo ! 0) = ''fg'' \<and>
   activeLayerId (removeLayer ''fg'' exTwo) = ''fg'' \<and>
   map layer_id (layers (removeLayer ''fg'' exTwo)) = [''inst-1'']"
proof -
  have h: "1 < length (layers exTwo)" "activeLayerId exTwo = ''fg''"
    and f: "layer_id (layers exTwo ! 0) = ''fg''"
    by (simp_all add: exTwo_def exState_def exFg_def)
  have r: "map layer_id (layers (removeLayer ''fg'' exTwo)) = [''inst-1'']"
    by (simp add: removeLayer_def pushToHistory_def exTwo_def exState_def exFg_def exInst_def)
  from removeLayer_active_first[OF h] f h r show ?thesis by simp
qed

text \<open>
  C5. Each invalid input is absorbed without an error and without a change to the layer
  registry or to any mask: a flood-fill seed outside the image, \<open>undo\<close> with an empty
  past, \<open>redo\<close> with an empty future and the removal of the only layer return the state
  as it is; a polygon commit with fewer than three vertices only discards the vertices
  collected so far.
\<close>

theorem invalid_input_ignored:
  "(\<not> (0 \<le> \<lfloor>X\<rfloor> \<and> \<lfloor>X\<rfloor> < int (dimensions_width s) \<and>
        0 \<le> \<lfloor>Y\<rfloor> \<and> \<lfloor>Y\<rfloor> < int (dimensions_height s)) \<longrightarrow>
      performFloodFill X Y s = Some s) \<and>
   (length (polyPoints s) < 3 \<longrightarrow> commitPolygon fillPath s = s\<lparr>polyPoints := []\<rparr>) \<and>
   (historyPast s = [] \<longrightarrow> handleUndo s = s) \<and>
   (historyFuture s = [] \<longrightarrow> handleRedo s = s) \<and>
   (length (layers s) \<le> 1 \<longrightarrow> removeLayer i s = s)"
  by (simp add: performFloodFill_outside commitPolygon_def handleUndo_def handleRedo_def
        handleUndoIn_def handleRedoIn_def removeLayer_def)

theorem invalid_input_ignored_witness:
  "performFloodFill (5 / 2) (1 / 5) exState = Some exState \<and>
   layers (commitPolygon (\<lambda>ps c. c) (exState\<lparr>polyPoints := [(0, 0), (1, 0)]\<rparr>)) = layers exState \<and>
   maskCanvases (commitPolygon (\<lambda>ps c. c) (exState\<lparr>polyPoints := [(0, 0), (1, 0)]\<rparr>)) =
     maskCanvases exState \<and>
   polyPoints (commitPolygon (\<lambda>ps c. c) (exState\<lparr>polyPoints := [(0, 0), (1, 0)]\<rparr>)) = [] \<and>
   handleUndo exState = exState \<and> handleRedo exState = exState \<and>
   removeLayer ''fg'' exState = exState"
proof -
  have f: "\<lfloor>5 / 2 :: real\<rfloor> = 2" "\<lfloor>1 / 5 :: real\<rfloor> = 0" by simp_all
  have h: "\<not> (0 \<le> \<lfloor>5 / 2 :: real\<rfloor> \<and> \<lfloor>5 / 2 :: real\<rfloor> < int (dimensions_width exState) \<and>
             0 \<le> \<lfloor>1 / 5 :: real\<rfloor> \<and> \<lfloor>1 / 5 :: real\<rfloor> < int (dimensions_height exState))"
    "historyPast exState = []" "historyFuture exState = []" "length (layers exState) \<le> 1"
    unfolding f by (simp_all add: exState_def)
  have p: "length (polyPoints (exState\<lparr>polyPoints := [(0, 0), (1, 0)]\<rparr>)) < 3" by simp
  from invalid_input_ignored[of "5 / 2" exState "1 / 5" "\<lambda>ps c. c" "''fg''"] h
  have a: "performFloodFill (5 / 2) (1 / 5) exState = Some exState"
    "handleUndo exState = exState" "handleRedo exState = exState"
    "removeLayer ''fg'' exState = exState" by blast+
  from invalid_input_ignored[of "5 / 2" "exState\<lparr>polyPoints := [(0, 0), (1, 0)]\<rparr>" "1 / 5"
         "\<lambda>ps c. c" "''fg''"] p
  have "commitPolygon (\<lambda>ps c. c) (exState\<lparr>polyPoints := [(0, 0), (1, 0)]\<rparr>) =
          exState\<lparr>polyPoints := [(0, 0), (1, 0)]\<rparr>\<lparr>polyPoints := []\<rparr>" by blast
  with a show ?thesis by simp
qed

lemma mkCanvas_cong:
  assumes "\<And>x y. x < w \<Longrightarrow> y < h \<Longrightarrow> f x y = g x y"
  shows "mkCanvas w h f = mkCanvas w h g"
proof -
  have "\<And>k. k < w * h \<Longrightarrow> f (k mod w) (k div w) = g (k mod w) (k div w)"
  proof -
    fix k assume k: "k < w * h"
    then have w: "0 < w" by (cases w) auto
    with k have "k mod w < w" "k div w < h" by (simp_all add: lt_iff_div)
    then show "f (k mod w) (k div w) = g (k mod w) (k div w)" by (rule assms)
  qed
  then have "map (\<lambda>k. pixelBytes (f (k mod w) (k div w))) [0..<w * h] =
             map (\<lambda>k. pixelBytes (g (k mod w) (k div w))) [0..<w * h]"
    by simp
  then show ?thesis
    unfolding mkCanvas_def
    by (rule arg_cong[where f = "\<lambda>m. \<lparr>width = w, height = h, data = concat m\<rparr>"])
qed

lemma mkCanvas_getPixel:
  assumes len: "length (data c) = 4 * (width c * height c)"
  shows "mkCanvas (width c) (height c) (getPixel c) = c"
proof -
  let ?w = "width c" and ?h = "height c"
  let ?d = "concat (map (\<lambda>k. pixelBytes (getPixel c (k mod ?w) (k div ?w))) [0..<?w * ?h])"
  have "?d = data c"
  proof (rule nth_equalityI)
    show "length ?d = length (data c)" using len by (simp add: concat_bytes_length)
  next
    fix i assume "i < length ?d"
    then have i: "i < 4 * (?w * ?h)" by (simp add: concat_bytes_length)
    define k where "k = i div 4"
    define j where "j = i mod 4"
    have ij: "i = 4 * k + j" and j: "j < 4" by (simp_all add: k_def j_def)
    from i have k: "k < ?w * ?h" by (simp add: k_def)
    then have w: "0 < ?w" by (cases "?w") auto
    with k have b: "k mod ?w < ?w" "k div ?w < ?h" by (simp_all add: lt_iff_div)
    have e: "k div ?w * ?w + k mod ?w = k" by simp
    have "?d ! (4 * k + j) = pixelBytes (getPixel c (k mod ?w) (k div ?w)) ! j"
      using k j by (rule concat_bytes_nth)
    also have "\<dots> = data c ! (4 * k + j)"
    proof -
      from j consider "j = 0" | "j = 1" | "j = 2" | "j = 3" by linarith
      then show ?thesis
        using b by cases (simp_all add: getPixel_def Let_def pixelBytes_def e)
    qed
    finally show "?d ! i = data c ! i" by (simp add: ij)
  qed
  then show ?thesis by (simp add: mkCanvas_def)
qed

lemma source_over_transparent:
  assumes "alpha p = 0 \<longrightarrow> p = transparent"
  shows "source_over p transparent = p"
proof (cases "alpha p = 0")
  case True
  with assms have "p = transparent" by simp
  then show ?thesis by (simp add: source_over_def transparent_def)
next
  case False
  then have a: "0 < alpha p" by simp
  have "\<And>c. c * alpha p * 255 div (255 * alpha p) = c"
  proof -
    fix c :: nat
    have "c * alpha p * 255 = c * (255 * alpha p)" by simp
    then show "c * alpha p * 255 div (255 * alpha p) = c" using a by simp
  qed
  with False show ?thesis
    by (cases p) (simp add: source_over_def transparent_def Let_def)
qed

lemma getPixel_createCanvas: "getPixel (createCanvas w h) x y = transparent"
  by (simp add: createCanvas_def getPixel_mkCanvas)


lemma width_drawImage: "width (drawImage gco src dst) = width dst"
  and height_drawImage: "height (drawImage gco src dst) = height dst"
  and width_fillRect: "width (fillRect gco c dst) = width dst"
  and height_fillRect: "height (fillRect gco c dst) = height dst"
  and width_createCanvas: "width (createCanvas w h) = w"
  and height_createCanvas: "height (createCanvas w h) = h"
  by (simp_all add: drawImage_def fillRect_def createCanvas_def width_mkCanvas height_mkCanvas)

lemma getPixel_drawImage:
  "x < width dst \<Longrightarrow> y < height dst \<Longrightarrow>
   getPixel (drawImage gco src dst) x y = composite gco (getPixel src x y) (getPixel dst x y)"
  by (simp add: drawImage_def getPixel_mkCanvas)

lemma getPixel_fillRect:
  "x < width dst \<Longrightarrow> y < height dst \<Longrightarrow>
   getPixel (fillRect gco c dst) x y = composite gco c (getPixel dst x y)"
  by (simp add: fillRect_def getPixel_mkCanvas)

lemma source_over_white: "source_over white d = white"
  by (simp add: source_over_def white_def Let_def)

lemma source_over_transparent_left:
  "d = white \<or> d = transparent \<or> d = black \<Longrightarrow> source_over transparent d = d"
  by (auto simp: source_over_def white_def transparent_def black_def Let_def)

lemma source_over_opaque: "alpha p = 255 \<Longrightarrow> source_over p d = p"
  by (cases p) (simp add: source_over_def Let_def)

lemma destination_in_white:
  "alpha d = 0 \<longrightarrow> d = transparent \<Longrightarrow> destination_in white d = d"
  by (cases d) (auto simp: destination_in_def white_def transparent_def Let_def)

lemma destination_in_transparent: "destination_in transparent d = transparent"
  by (simp add: destination_in_def transparent_def Let_def)

lemma source_over_normal: "alpha (source_over p d) = 0 \<longrightarrow> source_over p d = transparent"
  by (simp add: source_over_def Let_def transparent_def)

lemma compositeMask_fold:
  assumes bin: "\<forall>l\<in>set ls. isVisible l \<longrightarrow>
                  (\<forall>m. maskCanvases s (layer_id l) = Some m \<longrightarrow> binaryMask w h m)"
    and acc: "width acc = w" "height acc = h"
             "\<forall>x<w. \<forall>y<h. getPixel acc x y = white \<or> getPixel acc x y = transparent"
  defines "step \<equiv> (\<lambda>mCtx layer.
              if isVisible layer
              then (case maskCanvases s (layer_id layer) of
                      Some lMask \<Rightarrow> drawImage SourceOver lMask mCtx
                    | None \<Rightarrow> mCtx)
              else mCtx)"
  shows "width (foldl step acc ls) = w \<and> height (foldl step acc ls) = h \<and>
         (\<forall>x<w. \<forall>y<h. getPixel (foldl step acc ls) x y =
            (if getPixel acc x y = white \<or>
                (\<exists>l\<in>set ls. isVisible l \<and>
                   (\<exists>m. maskCanvases s (layer_id l) = Some m \<and> covers m x y))
             then white else transparent))"
  using bin acc
proof (induction ls arbitrary: acc)
  case Nil
  then show ?case by auto
next
  case (Cons l ls)
  define acc' where "acc' = step acc l"
  have dims: "width acc' = w" "height acc' = h"
    using Cons.prems(2,3) by (auto simp: acc'_def step_def width_drawImage height_drawImage split: option.split)
  have px: "\<forall>x<w. \<forall>y<h. getPixel acc' x y =
              (if getPixel acc x y = white \<or>
                  (isVisible l \<and> (\<exists>m. maskCanvases s (layer_id l) = Some m \<and> covers m x y))
               then white else transparent)"
  proof (intro allI impI)
    fix x y assume xy: "x < w" "y < h"
    with Cons.prems(4) have a: "getPixel acc x y = white \<or> getPixel acc x y = transparent" by simp
    show "getPixel acc' x y =
              (if getPixel acc x y = white \<or>
                  (isVisible l \<and> (\<exists>m. maskCanvases s (layer_id l) = Some m \<and> covers m x y))
               then white else transparent)"
    proof (cases "isVisible l")
      case False
      with a show ?thesis by (auto simp: acc'_def step_def)
    next
      case True
      show ?thesis
      proof (cases "maskCanvases s (layer_id l)")
        case None
        with True a show ?thesis by (auto simp: acc'_def step_def)
      next
        case (Some m)
        with True Cons.prems(1) have "binaryMask w h m" by simp
        with xy have b: "getPixel m x y = white \<or> getPixel m x y = transparent"
          by (simp add: binaryMask_def)
        have "getPixel acc' x y = source_over (getPixel m x y) (getPixel acc x y)"
          using True Some xy Cons.prems(2,3) by (simp add: acc'_def step_def getPixel_drawImage)
        with a b True Some show ?thesis
          by (auto simp: covers_def source_over_white source_over_transparent_left)
      qed
    qed
  qed
  have bin': "\<forall>l\<in>set ls. isVisible l \<longrightarrow>
                  (\<forall>m. maskCanvases s (layer_id l) = Some m \<longrightarrow> binaryMask w h m)"
    using Cons.prems(1) by simp
  have acc'b: "\<forall>x<w. \<forall>y<h. getPixel acc' x y = white \<or> getPixel acc' x y = transparent"
    using px by simp
  from Cons.IH[OF bin' dims acc'b] px
  show ?case by (auto simp: acc'_def)
qed

lemma getCompositeMask_pixel:
  assumes "visibleMasksBinary s"
  shows "width (getCompositeMask s) = dimensions_width s"
    and "height (getCompositeMask s) = dimensions_height s"
    and "x < dimensions_width s \<Longrightarrow> y < dimensions_height s \<Longrightarrow>
         getPixel (getCompositeMask s) x y = (if unionCovers s x y then white else transparent)"
proof -
  let ?w = "dimensions_width s" and ?h = "dimensions_height s"
  have a: "\<forall>x<?w. \<forall>y<?h. getPixel (createCanvas ?w ?h) x y = white \<or>
                             getPixel (createCanvas ?w ?h) x y = transparent"
    by (simp add: getPixel_createCanvas)
  from assms have b: "\<forall>l\<in>set (layers s). isVisible l \<longrightarrow>
                  (\<forall>m. maskCanvases s (layer_id l) = Some m \<longrightarrow> binaryMask ?w ?h m)"
    by (simp add: visibleMasksBinary_def)
  note f = compositeMask_fold[OF b width_createCanvas height_createCanvas a, folded getCompositeMask_def]
  from f show "width (getCompositeMask s) = ?w" "height (getCompositeMask s) = ?h" by simp_all
  assume "x < ?w" "y < ?h"
  with f show "getPixel (getCompositeMask s) x y = (if unionCovers s x y then white else transparent)"
    by (simp add: getPixel_createCanvas unionCovers_def white_def transparent_def)
qed

lemma export_white_bg_pixel:
  assumes img: "imageRef s = Some img" and pos: "0 < dimensions_width s"
    and bin: "visibleMasksBinary s"
  shows "\<exists>out. processExport White_bg s = Some out \<and>
           width out = dimensions_width s \<and> height out = dimensions_height s \<and>
           (\<forall>x<dimensions_width s. \<forall>y<dimensions_height s.
              getPixel out x y =
                (if unionCovers s x y
                 then source_over (source_over (getPixel img x y) transparent) white
                 else white))"
proof -
  let ?w = "dimensions_width s" and ?h = "dimensions_height s"
  let ?blank = "createCanvas ?w ?h"
  let ?out = "drawImage SourceOver
                (drawImage DestinationIn (getCompositeMask s) (drawImage SourceOver img ?blank))
                (fillRect SourceOver white ?blank)"
  have run: "processExport White_bg s = Some ?out"
    using img pos by (simp add: processExport_def Let_def)
  have px: "\<forall>x<?w. \<forall>y<?h. getPixel ?out x y =
                (if unionCovers s x y
                 then source_over (source_over (getPixel img x y) transparent) white
                 else white)"
  proof (intro allI impI)
    fix x y assume xy: "x < ?w" "y < ?h"
    have m: "getPixel (getCompositeMask s) x y = (if unionCovers s x y then white else transparent)"
      using bin xy by (rule getCompositeMask_pixel(3))
    have "getPixel ?out x y =
            source_over (destination_in (getPixel (getCompositeMask s) x y)
                           (source_over (getPixel img x y) transparent))
                        (source_over white transparent)"
      using xy by (simp add: getPixel_drawImage getPixel_fillRect width_drawImage height_drawImage
          width_fillRect height_fillRect width_createCanvas height_createCanvas getPixel_createCanvas)
    then show "getPixel ?out x y =
                (if unionCovers s x y
                 then source_over (source_over (getPixel img x y) transparent) white
                 else white)"
      by (simp add: m source_over_white destination_in_white destination_in_transparent
            source_over_normal source_over_transparent_left)
  qed
  from run px show ?thesis
    by (intro exI[of _ ?out]) (simp add: width_drawImage height_drawImage width_fillRect
          height_fillRect width_createCanvas height_createCanvas)
qed

lemma export_rgba_pixel:
  assumes img: "imageRef s = Some img" and pos: "0 < dimensions_width s"
    and bin: "visibleMasksBinary s"
  shows "\<exists>out. processExport Rgba s = Some out \<and>
           width out = dimensions_width s \<and> height out = dimensions_height s \<and>
           (\<forall>x<dimensions_width s. \<forall>y<dimensions_height s.
              getPixel out x y =
                (if unionCovers s x y then source_over (getPixel img x y) transparent
                 else transparent))"
proof -
  let ?w = "dimensions_width s" and ?h = "dimensions_height s"
  let ?blank = "createCanvas ?w ?h"
  let ?out = "drawImage DestinationIn (getCompositeMask s) (drawImage SourceOver img ?blank)"
  have run: "processExport Rgba s = Some ?out"
    using img pos bin by (simp add: processExport_def Let_def getCompositeMask_pixel(1))
  have px: "\<forall>x<?w. \<forall>y<?h. getPixel ?out x y =
                (if unionCovers s x y then source_over (getPixel img x y) transparent
                 else transparent)"
  proof (intro allI impI)
    fix x y assume xy: "x < ?w" "y < ?h"
    have m: "getPixel (getCompositeMask s) x y = (if unionCovers s x y then white else transparent)"
      using bin xy by (rule getCompositeMask_pixel(3))
    have "getPixel ?out x y =
            destination_in (getPixel (getCompositeMask s) x y)
                           (source_over (getPixel img x y) transparent)"
      using xy by (simp add: getPixel_drawImage width_drawImage height_drawImage
          width_createCanvas height_createCanvas getPixel_createCanvas)
    then show "getPixel ?out x y =
                (if unionCovers s x y then source_over (getPixel img x y) transparent
                 else transparent)"
      by (simp add: m destination_in_white destination_in_transparent source_over_normal)
  qed
  from run px show ?thesis
    by (intro exI[of _ ?out]) (simp add: width_drawImage height_drawImage
          width_createCanvas height_createCanvas)
qed

lemma canvas_eqI:
  assumes "width a = width b" "height a = height b"
    and "length (data a) = 4 * (width a * height a)" "length (data b) = 4 * (width b * height b)"
    and "\<forall>x<width a. \<forall>y<height a. getPixel a x y = getPixel b x y"
  shows "a = (b :: canvas)"
proof -
  have "mkCanvas (width a) (height a) (getPixel a) = mkCanvas (width a) (height a) (getPixel b)"
    using assms(5) by (intro mkCanvas_cong) simp
  with mkCanvas_getPixel[OF assms(3)] mkCanvas_getPixel[OF assms(4)] assms(1,2)
  show ?thesis by simp
qed

lemma length_drawImage:
  "length (data (drawImage gco src dst)) = 4 * (width dst * height dst)"
  by (simp add: drawImage_def length_mkCanvas)

lemma export_roundtrip:
  assumes img: "imageRef s = Some img" and pos: "0 < dimensions_width s"
    and wi: "width img = dimensions_width s" and hi: "height img = dimensions_height s"
    and li: "length (data img) = 4 * (dimensions_width s * dimensions_height s)"
    and opaque: "\<forall>x<dimensions_width s. \<forall>y<dimensions_height s. alpha (getPixel img x y) = 255"
    and bin: "visibleMasksBinary s"
    and full: "\<forall>x<dimensions_width s. \<forall>y<dimensions_height s. unionCovers s x y"
  shows "processExport Rgba s = Some img" and "processExport White_bg s = Some img"
proof -
  from export_rgba_pixel[OF img pos bin] obtain out where
    r: "processExport Rgba s = Some out" and d: "width out = dimensions_width s"
      "height out = dimensions_height s"
    and px: "\<forall>x<dimensions_width s. \<forall>y<dimensions_height s.
              getPixel out x y =
                (if unionCovers s x y then source_over (getPixel img x y) transparent
                 else transparent)" by blast
  from r img pos have "length (data out) = 4 * (width out * height out)"
    by (auto simp: processExport_def Let_def length_drawImage width_drawImage height_drawImage
          split: if_splits)
  moreover have "\<forall>x<width out. \<forall>y<height out. getPixel out x y = getPixel img x y"
    using px full opaque d by (simp add: source_over_opaque)
  ultimately have "out = img" using d wi hi li by (intro canvas_eqI) simp_all
  with r show "processExport Rgba s = Some img" by simp
  from export_white_bg_pixel[OF img pos bin] obtain out2 where
    r2: "processExport White_bg s = Some out2" and d2: "width out2 = dimensions_width s"
      "height out2 = dimensions_height s"
    and px2: "\<forall>x<dimensions_width s. \<forall>y<dimensions_height s.
              getPixel out2 x y =
                (if unionCovers s x y
                 then source_over (source_over (getPixel img x y) transparent) white
                 else white)" by blast
  from r2 img pos have "length (data out2) = 4 * (width out2 * height out2)"
    by (auto simp: processExport_def Let_def length_drawImage width_drawImage height_drawImage
          split: if_splits)
  moreover have "\<forall>x<width out2. \<forall>y<height out2. getPixel out2 x y = getPixel img x y"
    using px2 full opaque d2 by (simp add: source_over_opaque)
  ultimately have "out2 = img" using d2 wi hi li by (intro canvas_eqI) simp_all
  with r2 show "processExport White_bg s = Some img" by simp
qed

lemma source_over_blank:
  "source_over p transparent = (if alpha p = 0 then transparent else p)"
proof (cases "alpha p = 0")
  case True
  then show ?thesis by (simp add: source_over_def transparent_def Let_def)
next
  case False
  then have "source_over p transparent = p" by (intro source_over_transparent) simp
  with False show ?thesis by simp
qed

text \<open>
  C7 (amended). With binary masks on the visible layers (each mask pixel opaque white or
  fully transparent), the \<open>white_bg\<close> export shows the source
  image exactly where the mask of some visible layer covers the pixel (where the source is
  not opaque, the source drawn over white) and opaque white elsewhere; the \<open>rgba\<close> export
  shows the source image on the same pixels and is fully transparent elsewhere.
  Consequently, for a well-formed, fully opaque source image and a registry of one visible
  layer whose mask covers the whole image, both exports are the source image itself.
\<close>

theorem union_export:
  assumes "imageRef s = Some img" and "0 < dimensions_width s" and "visibleMasksBinary s"
  shows "(\<exists>out. processExport White_bg s = Some out \<and>
            width out = dimensions_width s \<and> height out = dimensions_height s \<and>
            (\<forall>x<dimensions_width s. \<forall>y<dimensions_height s.
               getPixel out x y =
                 (if unionCovers s x y
                  then (if alpha (getPixel img x y) = 255 then getPixel img x y
                        else source_over (source_over (getPixel img x y) transparent) white)
                  else white))) \<and>
         (\<exists>out. processExport Rgba s = Some out \<and>
            width out = dimensions_width s \<and> height out = dimensions_height s \<and>
            (\<forall>x<dimensions_width s. \<forall>y<dimensions_height s.
               getPixel out x y =
                 (if unionCovers s x y \<and> alpha (getPixel img x y) \<noteq> 0 then getPixel img x y
                  else transparent))) \<and>
         (width img = dimensions_width s \<and> height img = dimensions_height s \<and>
          length (data img) = 4 * (dimensions_width s * dimensions_height s) \<and>
          (\<forall>x<dimensions_width s. \<forall>y<dimensions_height s. alpha (getPixel img x y) = 255) \<and>
          (\<exists>l m. layers s = [l] \<and> isVisible l \<and> maskCanvases s (layer_id l) = Some m \<and>
                 (\<forall>x<dimensions_width s. \<forall>y<dimensions_height s. covers m x y)) \<longrightarrow>
          processExport Rgba s = Some img \<and> processExport White_bg s = Some img)"
proof (intro conjI impI)
  from export_white_bg_pixel[OF assms]
  show "\<exists>out. processExport White_bg s = Some out \<and>
            width out = dimensions_width s \<and> height out = dimensions_height s \<and>
            (\<forall>x<dimensions_width s. \<forall>y<dimensions_height s.
               getPixel out x y =
                 (if unionCovers s x y
                  then (if alpha (getPixel img x y) = 255 then getPixel img x y
                        else source_over (source_over (getPixel img x y) transparent) white)
                  else white))"
    by (auto simp: source_over_opaque)
  from export_rgba_pixel[OF assms]
  show "\<exists>out. processExport Rgba s = Some out \<and>
            width out = dimensions_width s \<and> height out = dimensions_height s \<and>
            (\<forall>x<dimensions_width s. \<forall>y<dimensions_height s.
               getPixel out x y =
                 (if unionCovers s x y \<and> alpha (getPixel img x y) \<noteq> 0 then getPixel img x y
                  else transparent))"
    by (auto simp: source_over_blank)
next
  assume a: "width img = dimensions_width s \<and> height img = dimensions_height s \<and>
          length (data img) = 4 * (dimensions_width s * dimensions_height s) \<and>
          (\<forall>x<dimensions_width s. \<forall>y<dimensions_height s. alpha (getPixel img x y) = 255) \<and>
          (\<exists>l m. layers s = [l] \<and> isVisible l \<and> maskCanvases s (layer_id l) = Some m \<and>
                 (\<forall>x<dimensions_width s. \<forall>y<dimensions_height s. covers m x y))"
  then have full: "\<forall>x<dimensions_width s. \<forall>y<dimensions_height s. unionCovers s x y"
    by (auto simp: unionCovers_def)
  from a have w: "width img = dimensions_width s" and h: "height img = dimensions_height s"
    and l: "length (data img) = 4 * (dimensions_width s * dimensions_height s)"
    and o: "\<forall>x<dimensions_width s. \<forall>y<dimensions_height s. alpha (getPixel img x y) = 255"
    by blast+
  from export_roundtrip[OF assms(1,2) w h l o assms(3) full]
  show "processExport Rgba s = Some img" "processExport White_bg s = Some img" .
qed

theorem union_export_witness:
  "imageRef exFull = Some exSource \<and> 0 < dimensions_width exFull \<and> visibleMasksBinary exFull \<and>
   layers exFull = [exFg] \<and> isVisible exFg \<and> maskCanvases exFull (layer_id exFg) = Some exWhole \<and>
   processExport Rgba exFull = Some exSource \<and> processExport White_bg exFull = Some exSource"
proof -
  have px: "\<forall>x<2. \<forall>y<1. getPixel exWhole x y = white" "\<forall>x<2. \<forall>y<1. alpha (getPixel exSource x y) = 255"
    by (auto simp: exWhole_def exSource_def getPixel_def white_def less_Suc_eq numeral_2_eq_2)
  have h: "imageRef exFull = Some exSource" "0 < dimensions_width exFull"
    "layers exFull = [exFg]" "isVisible exFg" "maskCanvases exFull (layer_id exFg) = Some exWhole"
    "dimensions_width exFull = 2" "dimensions_height exFull = 1"
    by (simp_all add: exFull_def exState_def exFg_def)
  have bm: "binaryMask 2 1 exWhole"
    using px(1) by (simp add: binaryMask_def) (simp add: exWhole_def)
  have b: "visibleMasksBinary exFull"
    unfolding visibleMasksBinary_def h using bm h(5) by simp
  have c: "width exSource = dimensions_width exFull \<and> height exSource = dimensions_height exFull \<and>
          length (data exSource) = 4 * (dimensions_width exFull * dimensions_height exFull) \<and>
          (\<forall>x<dimensions_width exFull. \<forall>y<dimensions_height exFull. alpha (getPixel exSource x y) = 255) \<and>
          (\<exists>l m. layers exFull = [l] \<and> isVisible l \<and> maskCanvases exFull (layer_id l) = Some m \<and>
                 (\<forall>x<dimensions_width exFull. \<forall>y<dimensions_height exFull. covers m x y))"
    using px h by (simp add: exSource_def covers_def)
  from union_export[OF h(1,2) b] c h b show ?thesis by blast
qed

lemma export_instance_pixel:
  assumes img: "imageRef s = Some img" and pos: "0 < dimensions_width s"
    and am: "maskCanvases s (activeLayerId s) = Some am"
    and ab: "binaryMask (dimensions_width s) (dimensions_height s) am"
    and fb: "\<forall>fm. maskCanvases s ''fg'' = Some fm \<longrightarrow>
               binaryMask (dimensions_width s) (dimensions_height s) fm"
  shows "\<exists>out. processExport Instance s = Some out \<and>
           width out = dimensions_width s \<and> height out = dimensions_height s \<and>
           (\<forall>x<dimensions_width s. \<forall>y<dimensions_height s.
              getPixel out x y =
                (if covers am x y \<and>
                    (activeLayerId s = ''fg'' \<or>
                     (\<forall>fm. maskCanvases s ''fg'' = Some fm \<longrightarrow> covers fm x y))
                 then source_over (getPixel img x y) transparent
                 else transparent))"
proof -
  let ?w = "dimensions_width s" and ?h = "dimensions_height s"
  let ?blank = "createCanvas ?w ?h"
  let ?mCtx = "drawImage SourceOver am ?blank"
  let ?mc = "if activeLayerId s \<noteq> ''fg''
             then (case maskCanvases s ''fg'' of
                     Some fgMask \<Rightarrow> drawImage DestinationIn fgMask ?mCtx
                   | None \<Rightarrow> ?mCtx)
             else ?mCtx"
  let ?out = "drawImage DestinationIn ?mc (drawImage SourceOver img ?blank)"
  have wmc: "width ?mc = ?w" "height ?mc = ?h"
    by (simp_all add: width_drawImage height_drawImage width_createCanvas height_createCanvas
          split: option.split)
  have run: "processExport Instance s = Some ?out"
    using img pos am wmc(1) by (simp add: processExport_def Let_def)
  have px: "\<forall>x<?w. \<forall>y<?h. getPixel ?out x y =
                (if covers am x y \<and>
                    (activeLayerId s = ''fg'' \<or>
                     (\<forall>fm. maskCanvases s ''fg'' = Some fm \<longrightarrow> covers fm x y))
                 then source_over (getPixel img x y) transparent
                 else transparent)"
  proof (intro allI impI)
    fix x y assume xy: "x < ?w" "y < ?h"
    from ab xy have a: "getPixel am x y = white \<or> getPixel am x y = transparent"
      by (simp add: binaryMask_def)
    have m0: "getPixel ?mCtx x y = getPixel am x y"
      using xy a by (auto simp: getPixel_drawImage width_createCanvas height_createCanvas
            getPixel_createCanvas source_over_white source_over_transparent_left)
    have mc: "getPixel ?mc x y =
                (if covers am x y \<and>
                    (activeLayerId s = ''fg'' \<or>
                     (\<forall>fm. maskCanvases s ''fg'' = Some fm \<longrightarrow> covers fm x y))
                 then white else transparent)"
    proof (cases "activeLayerId s \<noteq> ''fg'' \<and> maskCanvases s ''fg'' \<noteq> None")
      case False
      with m0 a show ?thesis by (auto simp: covers_def white_def transparent_def)
    next
      case True
      then obtain fm where fm: "maskCanvases s ''fg'' = Some fm" by auto
      with fb xy have f: "getPixel fm x y = white \<or> getPixel fm x y = transparent"
        by (simp add: binaryMask_def)
      have "getPixel ?mc x y = destination_in (getPixel fm x y) (getPixel am x y)"
        using True fm xy m0
        by (simp add: getPixel_drawImage width_drawImage height_drawImage
              width_createCanvas height_createCanvas)
      with a f True fm show ?thesis
        by (auto simp: covers_def destination_in_white destination_in_transparent
              white_def transparent_def destination_in_def Let_def)
    qed
    have e: "getPixel ?out x y =
            destination_in (getPixel ?mc x y) (source_over (getPixel img x y) transparent)"
      using xy by (simp only: getPixel_drawImage width_drawImage height_drawImage
          width_createCanvas height_createCanvas getPixel_createCanvas composite.simps)
    have d: "\<And>C. destination_in (if C then white else transparent)
                    (source_over (getPixel img x y) transparent) =
                  (if C then source_over (getPixel img x y) transparent else transparent)"
      by (simp add: destination_in_white destination_in_transparent source_over_normal)
    show "getPixel ?out x y =
                (if covers am x y \<and>
                    (activeLayerId s = ''fg'' \<or>
                     (\<forall>fm. maskCanvases s ''fg'' = Some fm \<longrightarrow> covers fm x y))
                 then source_over (getPixel img x y) transparent
                 else transparent)"
      by (simp only: e mc d)
  qed
  from run px show ?thesis
    by (intro exI[of _ ?out]) (simp only: width_drawImage height_drawImage
          width_createCanvas height_createCanvas simp_thms)
qed

lemma exRemoved_eval:
  "map layer_id (layers exRemoved) = [''inst-1'']"
  "activeLayerId exRemoved = ''inst-1''"
  "maskCanvases exRemoved ''inst-1'' = Some exLeft"
  "maskCanvases exRemoved ''fg'' = Some exBlank"
  "imageRef exRemoved = Some exSource"
  "dimensions_width exRemoved = 2" "dimensions_height exRemoved = 1"
  by (simp_all add: exRemoved_def ensureMasks_def removeLayer_def pushToHistory_def exTwo_def
        exState_def exFg_def exInst_def Let_def)

lemma processExport_length:
  "processExport mode s = Some out \<Longrightarrow> length (data out) = 4 * (width out * height out)"
  by (cases mode)
     (auto simp: processExport_def Let_def length_drawImage width_drawImage height_drawImage
        split: option.splits if_splits)

lemma canvas21_eq:
  assumes "width c = 2" "height c = 1" "length (data c) = 4 * (width c * height c)"
    and "getPixel c 0 0 = RGBA r0 g0 b0 a0" and "getPixel c 1 0 = RGBA r1 g1 b1 a1"
  shows "c = \<lparr>width = 2, height = 1, data = [r0, g0, b0, a0, r1, g1, b1, a1]\<rparr>"
proof (rule canvas_eqI)
  let ?e = "\<lparr>width = 2, height = 1, data = [r0, g0, b0, a0, r1, g1, b1, a1]\<rparr>"
  show "width c = width ?e" "height c = height ?e" using assms by simp_all
  show "length (data c) = 4 * (width c * height c)" by (rule assms(3))
  show "length (data ?e) = 4 * (width ?e * height ?e)" by simp
  have "getPixel ?e 0 0 = RGBA r0 g0 b0 a0" "getPixel ?e 1 0 = RGBA r1 g1 b1 a1"
    by (simp_all add: getPixel_def)
  with assms(4,5) have "getPixel c 0 0 = getPixel ?e 0 0" "getPixel c 1 0 = getPixel ?e 1 0"
    by simp_all
  then show "\<forall>x<width c. \<forall>y<height c. getPixel c x y = getPixel ?e x y"
    using assms(1,2) by (auto simp: less_Suc_eq numeral_2_eq_2)
qed

lemma ex_pixels:
  "getPixel exLeft 0 0 = white" "getPixel exLeft (Suc 0) 0 = transparent"
  "getPixel exBlank 0 0 = transparent" "getPixel exBlank (Suc 0) 0 = transparent"
  "getPixel exSource 0 0 = RGBA 10 10 10 255" "getPixel exSource (Suc 0) 0 = RGBA 200 200 200 255"
  "getPixel exWhole 0 0 = white" "getPixel exWhole (Suc 0) 0 = white"
  by (simp_all add: getPixel_def exLeft_def exBlank_def exSource_def exWhole_def white_def
        transparent_def)

lemma ex_binary: "binaryMask 2 1 exLeft" "binaryMask 2 1 exBlank" "binaryMask 2 1 exWhole"
proof -
  have "\<And>m. width m = 2 \<Longrightarrow> height m = 1 \<Longrightarrow>
          getPixel m 0 0 = white \<or> getPixel m 0 0 = transparent \<Longrightarrow>
          getPixel m 1 0 = white \<or> getPixel m 1 0 = transparent \<Longrightarrow> binaryMask 2 1 m"
    by (auto simp: binaryMask_def less_Suc_eq numeral_2_eq_2)
  from this[of exLeft] this[of exBlank] this[of exWhole]
  have "width exLeft = 2 \<Longrightarrow> height exLeft = 1 \<Longrightarrow> binaryMask 2 1 exLeft"
    "width exBlank = 2 \<Longrightarrow> height exBlank = 1 \<Longrightarrow> binaryMask 2 1 exBlank"
    "width exWhole = 2 \<Longrightarrow> height exWhole = 1 \<Longrightarrow> binaryMask 2 1 exWhole"
    by (simp_all add: ex_pixels)
  then show "binaryMask 2 1 exLeft" "binaryMask 2 1 exBlank" "binaryMask 2 1 exWhole"
    by (simp_all add: exLeft_def exBlank_def exWhole_def)
qed

lemma masked_source_eval:
  "drawImage DestinationIn exLeft (drawImage SourceOver exSource (createCanvas 2 1)) =
     \<lparr>width = 2, height = 1, data = [10, 10, 10, 255, 0, 0, 0, 0]\<rparr>"
proof (rule canvas21_eq)
  let ?c = "drawImage DestinationIn exLeft (drawImage SourceOver exSource (createCanvas 2 1))"
  show "width ?c = 2" "height ?c = 1"
    by (simp_all add: width_drawImage height_drawImage width_createCanvas height_createCanvas)
  show "length (data ?c) = 4 * (width ?c * height ?c)"
    by (simp add: length_drawImage width_drawImage height_drawImage)
  show "getPixel ?c 0 0 = RGBA 10 10 10 255"
    by (simp add: getPixel_drawImage width_drawImage height_drawImage width_createCanvas
          height_createCanvas getPixel_createCanvas ex_pixels source_over_opaque
          destination_in_white)
  show "getPixel ?c 1 0 = RGBA 0 0 0 0"
    by (simp add: getPixel_drawImage width_drawImage height_drawImage width_createCanvas
          height_createCanvas getPixel_createCanvas ex_pixels destination_in_transparent)
       (simp add: transparent_def)
qed

lemma exRemoved_export:
  "processExport Instance exRemoved =
     Some \<lparr>width = 2, height = 1, data = [0, 0, 0, 0, 0, 0, 0, 0]\<rparr>"
proof -
  have h: "imageRef exRemoved = Some exSource" "0 < dimensions_width exRemoved"
    "maskCanvases exRemoved (activeLayerId exRemoved) = Some exLeft"
    "binaryMask (dimensions_width exRemoved) (dimensions_height exRemoved) exLeft"
    "\<forall>fm. maskCanvases exRemoved ''fg'' = Some fm \<longrightarrow>
           binaryMask (dimensions_width exRemoved) (dimensions_height exRemoved) fm"
    using ex_binary by (simp_all add: exRemoved_eval)
  from export_instance_pixel[OF h] obtain out where
    o: "processExport Instance exRemoved = Some out" and d: "width out = 2" "height out = 1"
    and px: "\<forall>x<2. \<forall>y<1. getPixel out x y =
                (if covers exLeft x y \<and>
                    (activeLayerId exRemoved = ''fg'' \<or>
                     (\<forall>fm. maskCanvases exRemoved ''fg'' = Some fm \<longrightarrow> covers fm x y))
                 then source_over (getPixel exSource x y) transparent else transparent)"
    unfolding exRemoved_eval(6,7) by blast
  from px have p: "getPixel out 0 0 = RGBA 0 0 0 0" "getPixel out 1 0 = RGBA 0 0 0 0"
    by (simp_all add: exRemoved_eval covers_def ex_pixels) (simp_all add: transparent_def white_def)
  from d processExport_length[OF o] p
  have "out = \<lparr>width = 2, height = 1, data = [0, 0, 0, 0, 0, 0, 0, 0]\<rparr>" by (rule canvas21_eq)
  with o show ?thesis by simp
qed

text \<open>
  C1 (as stated). The claim lets the intersection with the \<open>fg\<close> mask depend on the layer
  registry: with no \<open>fg\<close> layer in the registry, only the active layer's mask is to apply.
  In the session below the registry holds the single layer \<open>inst-1\<close>, which is active and
  whose mask covers the left pixel, yet the export is empty and not the source image
  masked by that mask: the mask store still holds the mask of the removed layer \<open>fg\<close>.
\<close>

theorem instance_export_counterexample:
  "map layer_id (layers exRemoved) = [''inst-1''] \<and>
   activeLayerId exRemoved = ''inst-1'' \<and>
   maskCanvases exRemoved ''inst-1'' = Some exLeft \<and>
   drawImage DestinationIn exLeft (drawImage SourceOver exSource (createCanvas 2 1)) =
     \<lparr>width = 2, height = 1, data = [10, 10, 10, 255, 0, 0, 0, 0]\<rparr> \<and>
   processExport Instance exRemoved =
     Some \<lparr>width = 2, height = 1, data = [0, 0, 0, 0, 0, 0, 0, 0]\<rparr> \<and>
   processExport Instance exRemoved \<noteq>
     Some (drawImage DestinationIn exLeft (drawImage SourceOver exSource (createCanvas 2 1)))"
  unfolding masked_source_eval exRemoved_export exRemoved_eval by simp

text \<open>
  C1 (amended). With binary masks, the \<open>instance\<close> export shows the source image where the
  active layer's mask covers the pixel and, when the active layer id is not \<open>fg\<close> and the
  mask store holds a mask under \<open>fg\<close>, that mask covers it as well; it is fully transparent
  elsewhere. When the mask store holds no mask under \<open>fg\<close>, only the active layer's mask
  applies.
\<close>

theorem instance_export:
  assumes "imageRef s = Some img" and "0 < dimensions_width s"
    and "maskCanvases s (activeLayerId s) = Some am"
    and "binaryMask (dimensions_width s) (dimensions_height s) am"
    and "\<forall>fm. maskCanvases s ''fg'' = Some fm \<longrightarrow>
           binaryMask (dimensions_width s) (dimensions_height s) fm"
  shows "\<exists>out. processExport Instance s = Some out \<and>
           width out = dimensions_width s \<and> height out = dimensions_height s \<and>
           (\<forall>x<dimensions_width s. \<forall>y<dimensions_height s.
              getPixel out x y =
                (if covers am x y \<and>
                    (activeLayerId s = ''fg'' \<or>
                     (\<forall>fm. maskCanvases s ''fg'' = Some fm \<longrightarrow> covers fm x y)) \<and>
                    alpha (getPixel img x y) \<noteq> 0
                 then getPixel img x y else transparent))"
  using export_instance_pixel[OF assms] by (auto simp: source_over_blank)

theorem instance_export_witness:
  "imageRef exRemoved = Some exSource \<and> 0 < dimensions_width exRemoved \<and>
   maskCanvases exRemoved (activeLayerId exRemoved) = Some exLeft \<and>
   binaryMask (dimensions_width exRemoved) (dimensions_height exRemoved) exLeft \<and>
   maskCanvases exRemoved ''fg'' = Some exBlank \<and>
   binaryMask (dimensions_width exRemoved) (dimensions_height exRemoved) exBlank \<and>
   covers exLeft 0 0 \<and> \<not> covers exBlank 0 0 \<and>
   (\<exists>out. processExport Instance exRemoved = Some out \<and> getPixel out 0 0 = transparent)"
proof -
  note bl = ex_binary(1,2)
  have c: "covers exLeft 0 0" "\<not> covers exBlank 0 0"
    by (simp_all add: covers_def ex_pixels) (simp add: white_def transparent_def)
  have h: "imageRef exRemoved = Some exSource" "0 < dimensions_width exRemoved"
    "maskCanvases exRemoved (activeLayerId exRemoved) = Some exLeft"
    "binaryMask (dimensions_width exRemoved) (dimensions_height exRemoved) exLeft"
    "\<forall>fm. maskCanvases exRemoved ''fg'' = Some fm \<longrightarrow>
           binaryMask (dimensions_width exRemoved) (dimensions_height exRemoved) fm"
    using bl by (simp_all add: exRemoved_eval)
  from instance_export[OF h] obtain out where
    o: "processExport Instance exRemoved = Some out"
    and px: "\<forall>x<2. \<forall>y<1. getPixel out x y =
                (if covers exLeft x y \<and>
                    (activeLayerId exRemoved = ''fg'' \<or>
                     (\<forall>fm. maskCanvases exRemoved ''fg'' = Some fm \<longrightarrow> covers fm x y)) \<and>
                    alpha (getPixel exSource x y) \<noteq> 0
                 then getPixel exSource x y else transparent)"
    unfolding exRemoved_eval(6,7) by blast
  from px c have "getPixel out 0 0 = transparent" by (simp add: exRemoved_eval)
  with o h bl c show ?thesis by (simp add: exRemoved_eval)
qed

lemma source_over_transparent_opaque: "alpha d = 255 \<Longrightarrow> source_over transparent d = d"
  by (cases d) (simp add: source_over_def transparent_def Let_def)

lemma source_in_label:
  "source_in (rgbStyle n) white = rgbStyle n" "source_in (rgbStyle n) transparent = transparent"
  by (simp_all add: source_in_def rgbStyle_def white_def transparent_def Let_def)

lemma paintLabel_pixel:
  assumes bin: "isVisible l \<longrightarrow>
                  (\<forall>m. maskCanvases s (layer_id l) = Some m \<longrightarrow>
                     binaryMask (dimensions_width s) (dimensions_height s) m)"
    and dims: "width ctx = dimensions_width s" "height ctx = dimensions_height s"
    and pos: "0 < dimensions_width s"
    and xy: "x < dimensions_width s" "y < dimensions_height s"
    and op: "alpha (getPixel ctx x y) = 255"
  shows "width (paintLabel s ctx (l, n)) = dimensions_width s"
    and "height (paintLabel s ctx (l, n)) = dimensions_height s"
    and "getPixel (paintLabel s ctx (l, n)) x y =
           (if isVisible l \<and> (\<exists>m. maskCanvases s (layer_id l) = Some m \<and> covers m x y)
            then rgbStyle (n + 1) else getPixel ctx x y)"
proof -
  let ?w = "dimensions_width s" and ?h = "dimensions_height s"
  show "width (paintLabel s ctx (l, n)) = ?w" "height (paintLabel s ctx (l, n)) = ?h"
    using dims by (simp_all add: paintLabel_def Let_def width_drawImage height_drawImage
          split: option.split)
  show "getPixel (paintLabel s ctx (l, n)) x y =
           (if isVisible l \<and> (\<exists>m. maskCanvases s (layer_id l) = Some m \<and> covers m x y)
            then rgbStyle (n + 1) else getPixel ctx x y)"
  proof (cases "isVisible l \<and> maskCanvases s (layer_id l) \<noteq> None")
    case False
    then show ?thesis by (auto simp: paintLabel_def Let_def)
  next
    case True
    then obtain m where m: "maskCanvases s (layer_id l) = Some m" and v: "isVisible l" by auto
    with bin have "binaryMask ?w ?h m" by simp
    with xy have b: "getPixel m x y = white \<or> getPixel m x y = transparent"
      by (simp add: binaryMask_def)
    let ?t = "fillRect SourceIn (rgbStyle (n + 1)) (drawImage SourceOver m (createCanvas ?w ?h))"
    have wt: "width ?t = ?w" "height ?t = ?h"
      by (simp_all add: width_fillRect height_fillRect width_drawImage height_drawImage
            width_createCanvas height_createCanvas)
    have e: "paintLabel s ctx (l, n) = drawImage SourceOver ?t ctx"
      using m v pos wt by (simp add: paintLabel_def Let_def)
    have d0: "getPixel (drawImage SourceOver m (createCanvas ?w ?h)) x y = getPixel m x y"
      using xy b by (auto simp: getPixel_drawImage width_createCanvas height_createCanvas
            getPixel_createCanvas source_over_white source_over_transparent_left)
    have tp: "getPixel ?t x y = source_in (rgbStyle (n + 1)) (getPixel m x y)"
      using xy d0
      by (simp add: getPixel_fillRect width_drawImage height_drawImage width_createCanvas
            height_createCanvas)
    have wt: "white \<noteq> transparent" by (simp add: white_def transparent_def)
    have t: "getPixel ?t x y = (if covers m x y then rgbStyle (n + 1) else transparent)"
      unfolding tp covers_def using b wt by (auto simp: source_in_label)
    have "getPixel (drawImage SourceOver ?t ctx) x y =
            source_over (getPixel ?t x y) (getPixel ctx x y)"
      using xy dims by (simp add: getPixel_drawImage)
    also have "\<dots> = (if covers m x y then rgbStyle (n + 1) else getPixel ctx x y)"
      unfolding t using op
      by (simp add: source_over_opaque source_over_transparent_opaque rgbStyle_def)
    finally show ?thesis using m v by (simp add: e)
  qed
qed

lemma training_fold:
  assumes pos: "0 < dimensions_width s"
    and dims: "width ctx0 = dimensions_width s" "height ctx0 = dimensions_height s"
    and blk: "\<forall>x<dimensions_width s. \<forall>y<dimensions_height s. getPixel ctx0 x y = black"
  shows "(\<forall>l\<in>set ls. isVisible l \<longrightarrow>
            (\<forall>m. maskCanvases s (layer_id l) = Some m \<longrightarrow>
               binaryMask (dimensions_width s) (dimensions_height s) m)) \<Longrightarrow>
         width (foldl (paintLabel s) ctx0 (zip ls [0..<length ls])) = dimensions_width s \<and>
         height (foldl (paintLabel s) ctx0 (zip ls [0..<length ls])) = dimensions_height s \<and>
         (\<forall>x<dimensions_width s. \<forall>y<dimensions_height s.
            alpha (getPixel (foldl (paintLabel s) ctx0 (zip ls [0..<length ls])) x y) = 255 \<and>
            (\<forall>i<length ls. paintedBy s ls i x y \<and>
                 (\<forall>j<length ls. i < j \<longrightarrow> \<not> paintedBy s ls j x y) \<longrightarrow>
               getPixel (foldl (paintLabel s) ctx0 (zip ls [0..<length ls])) x y = rgbStyle (i + 1)) \<and>
            ((\<forall>i<length ls. \<not> paintedBy s ls i x y) \<longrightarrow>
               getPixel (foldl (paintLabel s) ctx0 (zip ls [0..<length ls])) x y = black))"
proof (induction ls rule: rev_induct)
  case Nil
  with dims blk show ?case by (simp add: black_def)
next
  case (snoc l ls)
  let ?w = "dimensions_width s" and ?h = "dimensions_height s"
  define n where "n = length ls"
  define ctx where "ctx = foldl (paintLabel s) ctx0 (zip ls [0..<length ls])"
  have z: "zip (ls @ [l]) [0..<length (ls @ [l])] = zip ls [0..<length ls] @ [(l, n)]"
    by (simp add: n_def)
  have e: "foldl (paintLabel s) ctx0 (zip (ls @ [l]) [0..<length (ls @ [l])]) =
           paintLabel s ctx (l, n)"
    unfolding z by (simp add: ctx_def)
  from snoc.prems have binl: "isVisible l \<longrightarrow>
                  (\<forall>m. maskCanvases s (layer_id l) = Some m \<longrightarrow> binaryMask ?w ?h m)"
    and binls: "\<forall>l\<in>set ls. isVisible l \<longrightarrow>
            (\<forall>m. maskCanvases s (layer_id l) = Some m \<longrightarrow> binaryMask ?w ?h m)"
    by simp_all
  from snoc.IH[OF binls] have cd: "width ctx = ?w" "height ctx = ?h"
    and ih: "\<forall>x<?w. \<forall>y<?h.
            alpha (getPixel ctx x y) = 255 \<and>
            (\<forall>i<n. paintedBy s ls i x y \<and> (\<forall>j<n. i < j \<longrightarrow> \<not> paintedBy s ls j x y) \<longrightarrow>
               getPixel ctx x y = rgbStyle (i + 1)) \<and>
            ((\<forall>i<n. \<not> paintedBy s ls i x y) \<longrightarrow> getPixel ctx x y = black)"
    unfolding ctx_def n_def by blast+
  have pb: "\<And>i x y. i < n \<Longrightarrow> paintedBy s (ls @ [l]) i x y = paintedBy s ls i x y"
    by (simp add: paintedBy_def nth_append n_def)
  have pn: "\<And>x y. paintedBy s (ls @ [l]) n x y =
              (isVisible l \<and> (\<exists>m. maskCanvases s (layer_id l) = Some m \<and> covers m x y))"
    by (simp add: paintedBy_def n_def)
  show ?case
    unfolding e
  proof (intro conjI allI impI)
    show "width (paintLabel s ctx (l, n)) = ?w"
      using cd by (simp add: paintLabel_def Let_def width_drawImage split: option.split)
    show "height (paintLabel s ctx (l, n)) = ?h"
      using cd by (simp add: paintLabel_def Let_def height_drawImage split: option.split)
  next
    fix x y assume xy: "x < ?w" "y < ?h"
    with ih have op: "alpha (getPixel ctx x y) = 255" by simp
    note px = paintLabel_pixel(3)[OF binl cd pos xy op, of n, folded pn]
    show "alpha (getPixel (paintLabel s ctx (l, n)) x y) = 255"
      unfolding px using op by (simp add: rgbStyle_def)
  next
    fix x y i assume xy: "x < ?w" "y < ?h" and i: "i < length (ls @ [l])"
      and p: "paintedBy s (ls @ [l]) i x y \<and>
              (\<forall>j<length (ls @ [l]). i < j \<longrightarrow> \<not> paintedBy s (ls @ [l]) j x y)"
    from xy ih have op: "alpha (getPixel ctx x y) = 255" by simp
    note px = paintLabel_pixel(3)[OF binl cd pos xy op, of n, folded pn]
    show "getPixel (paintLabel s ctx (l, n)) x y = rgbStyle (i + 1)"
    proof (cases "i = n")
      case True
      with p px show ?thesis by simp
    next
      case False
      with i have iln: "i < n" by (simp add: n_def)
      with p have np: "\<not> paintedBy s (ls @ [l]) n x y" by (simp add: n_def)
      have later: "\<forall>j<n. i < j \<longrightarrow> \<not> paintedBy s ls j x y"
      proof (intro allI impI)
        fix j assume j: "j < n" "i < j"
        with p have "\<not> paintedBy s (ls @ [l]) j x y" by (simp add: n_def)
        with pb[OF j(1)] show "\<not> paintedBy s ls j x y" by simp
      qed
      from p pb[OF iln] have "paintedBy s ls i x y" by simp
      with later have "paintedBy s ls i x y \<and> (\<forall>j<n. i < j \<longrightarrow> \<not> paintedBy s ls j x y)"
        by simp
      with ih xy iln have "getPixel ctx x y = rgbStyle (i + 1)" by blast
      with np px show ?thesis by simp
    qed
  next
    fix x y assume xy: "x < ?w" "y < ?h"
      and none: "\<forall>i<length (ls @ [l]). \<not> paintedBy s (ls @ [l]) i x y"
    from xy ih have op: "alpha (getPixel ctx x y) = 255" by simp
    note px = paintLabel_pixel(3)[OF binl cd pos xy op, of n, folded pn]
    from none have np: "\<not> paintedBy s (ls @ [l]) n x y" by (simp add: n_def)
    have "\<forall>i<n. \<not> paintedBy s ls i x y"
    proof (intro allI impI)
      fix i assume i: "i < n"
      with none have "\<not> paintedBy s (ls @ [l]) i x y" by (simp add: n_def)
      with pb[OF i] show "\<not> paintedBy s ls i x y" by simp
    qed
    with ih xy have "getPixel ctx x y = black" by blast
    with np px show "getPixel (paintLabel s ctx (l, n)) x y = black" by simp
  qed
qed

lemma destination_in_opaque:
  "alpha d = 255 \<Longrightarrow> alpha s = 255 \<Longrightarrow> destination_in s d = d"
  by (cases d) (simp add: destination_in_def Let_def)

lemma destination_in_zero: "alpha s = 0 \<Longrightarrow> destination_in s d = transparent"
  by (simp add: destination_in_def Let_def)

lemma alpha_over_black:
  "alpha d = 255 \<Longrightarrow> alpha s \<le> 255 \<Longrightarrow>
   alpha (source_over (destination_in s d) black) = 255"
  by (cases "alpha s = 0")
     (simp_all add: source_over_def destination_in_def black_def transparent_def Let_def)

lemma export_training_pixel:
  assumes img: "imageRef s = Some img" and pos: "0 < dimensions_width s"
    and bin: "visibleMasksBinary s"
    and byte: "\<forall>x<dimensions_width s. \<forall>y<dimensions_height s. alpha (getPixel img x y) \<le> 255"
  shows "\<exists>out. processExport Training_mask s = Some out \<and>
           width out = dimensions_width s \<and> height out = dimensions_height s \<and>
           (\<forall>x<dimensions_width s. \<forall>y<dimensions_height s.
              alpha (getPixel out x y) = 255 \<and>
              (alpha (getPixel img x y) = 0 \<longrightarrow> getPixel out x y = black) \<and>
              (alpha (getPixel img x y) = 255 \<longrightarrow>
                 (\<forall>i<length (layers s).
                    paintedBy s (layers s) i x y \<and>
                    (\<forall>j<length (layers s). i < j \<longrightarrow> \<not> paintedBy s (layers s) j x y) \<longrightarrow>
                    getPixel out x y = rgbStyle (i + 1)) \<and>
                 ((\<forall>i<length (layers s). \<not> paintedBy s (layers s) i x y) \<longrightarrow>
                    getPixel out x y = black)))"
proof -
  let ?w = "dimensions_width s" and ?h = "dimensions_height s"
  let ?blank = "createCanvas ?w ?h"
  let ?ctx0 = "fillRect SourceOver black ?blank"
  let ?ctx1 = "foldl (paintLabel s) ?ctx0 (zip (layers s) [0..<length (layers s)])"
  let ?ctx2 = "drawImage DestinationIn img ?ctx1"
  let ?out = "drawImage SourceOver ?ctx2 ?ctx0"
  have run: "processExport Training_mask s = Some ?out"
    using img pos by (simp add: processExport_def Let_def)
  have d0: "width ?ctx0 = ?w" "height ?ctx0 = ?h"
    by (simp_all add: width_fillRect height_fillRect width_createCanvas height_createCanvas)
  have b0: "\<forall>x<?w. \<forall>y<?h. getPixel ?ctx0 x y = black"
    by (simp add: getPixel_fillRect width_createCanvas height_createCanvas getPixel_createCanvas
          source_over_opaque black_def)
  from bin have bl: "\<forall>l\<in>set (layers s). isVisible l \<longrightarrow>
            (\<forall>m. maskCanvases s (layer_id l) = Some m \<longrightarrow> binaryMask ?w ?h m)"
    by (simp add: visibleMasksBinary_def)
  note f = training_fold[OF pos d0 b0 bl]
  from f have d1: "width ?ctx1 = ?w" "height ?ctx1 = ?h" by blast+
  have px: "\<forall>x<?w. \<forall>y<?h.
              alpha (getPixel ?out x y) = 255 \<and>
              (alpha (getPixel img x y) = 0 \<longrightarrow> getPixel ?out x y = black) \<and>
              (alpha (getPixel img x y) = 255 \<longrightarrow>
                 (\<forall>i<length (layers s).
                    paintedBy s (layers s) i x y \<and>
                    (\<forall>j<length (layers s). i < j \<longrightarrow> \<not> paintedBy s (layers s) j x y) \<longrightarrow>
                    getPixel ?out x y = rgbStyle (i + 1)) \<and>
                 ((\<forall>i<length (layers s). \<not> paintedBy s (layers s) i x y) \<longrightarrow>
                    getPixel ?out x y = black))"
  proof (intro allI impI)
    fix x y assume xy: "x < ?w" "y < ?h"
    from f xy have op: "alpha (getPixel ?ctx1 x y) = 255"
      and some: "\<forall>i<length (layers s).
                    paintedBy s (layers s) i x y \<and>
                    (\<forall>j<length (layers s). i < j \<longrightarrow> \<not> paintedBy s (layers s) j x y) \<longrightarrow>
                    getPixel ?ctx1 x y = rgbStyle (i + 1)"
      and none: "(\<forall>i<length (layers s). \<not> paintedBy s (layers s) i x y) \<longrightarrow>
                    getPixel ?ctx1 x y = black"
      by blast+
    have e: "getPixel ?out x y =
               source_over (destination_in (getPixel img x y) (getPixel ?ctx1 x y)) black"
      using xy d0 d1 b0 by (simp add: getPixel_drawImage width_drawImage height_drawImage)
    have a: "alpha (getPixel ?out x y) = 255"
      unfolding e using op byte xy by (intro alpha_over_black) simp_all
    have z: "alpha (getPixel img x y) = 0 \<longrightarrow> getPixel ?out x y = black"
      unfolding e by (simp add: destination_in_zero source_over_transparent_opaque black_def)
    have o: "alpha (getPixel img x y) = 255 \<longrightarrow> getPixel ?out x y = getPixel ?ctx1 x y"
      unfolding e using op by (simp add: destination_in_opaque source_over_opaque)
    from a z o some none
    show "alpha (getPixel ?out x y) = 255 \<and>
              (alpha (getPixel img x y) = 0 \<longrightarrow> getPixel ?out x y = black) \<and>
              (alpha (getPixel img x y) = 255 \<longrightarrow>
                 (\<forall>i<length (layers s).
                    paintedBy s (layers s) i x y \<and>
                    (\<forall>j<length (layers s). i < j \<longrightarrow> \<not> paintedBy s (layers s) j x y) \<longrightarrow>
                    getPixel ?out x y = rgbStyle (i + 1)) \<and>
                 ((\<forall>i<length (layers s). \<not> paintedBy s (layers s) i x y) \<longrightarrow>
                    getPixel ?out x y = black))"
      by simp
  qed
  from run px d0 show ?thesis
    by (intro exI[of _ ?out]) (simp only: width_drawImage height_drawImage simp_thms)
qed

lemma canvas11_eq:
  assumes "width c = 1" "height c = 1" "length (data c) = 4 * (width c * height c)"
    and "getPixel c 0 0 = RGBA r0 g0 b0 a0"
  shows "c = \<lparr>width = 1, height = 1, data = [r0, g0, b0, a0]\<rparr>"
proof (rule canvas_eqI)
  let ?e = "\<lparr>width = 1, height = 1, data = [r0, g0, b0, a0]\<rparr>"
  show "width c = width ?e" "height c = height ?e" using assms by simp_all
  show "length (data c) = 4 * (width c * height c)" by (rule assms(3))
  show "length (data ?e) = 4 * (width ?e * height ?e)" by simp
  have "getPixel ?e 0 0 = RGBA r0 g0 b0 a0" by (simp add: getPixel_def)
  with assms(4) have "getPixel c 0 0 = getPixel ?e 0 0" by simp
  then show "\<forall>x<width c. \<forall>y<height c. getPixel c x y = getPixel ?e x y"
    using assms(1,2) by simp
qed

lemma exMany_eval:
  "length (layers exMany) = 256" "layers exMany ! 255 = exTop"
  "maskCanvases exMany ''inst-0'' = Some exPixelMask"
  "imageRef exMany = Some exPixel" "dimensions_width exMany = 1" "dimensions_height exMany = 1"
  by (simp_all add: exMany_def exState_def nth_append del: upt_rec_numeral)

lemma exMany_binary: "visibleMasksBinary exMany"
  unfolding visibleMasksBinary_def
proof (intro ballI impI allI)
  fix l m
  assume l: "l \<in> set (layers exMany)" and v: "isVisible l"
    and m: "maskCanvases exMany (layer_id l) = Some m"
  have ls: "layers exMany = map exHidden [0..<255] @ [exTop]" by (simp add: exMany_def)
  have h: "\<And>k. \<not> isVisible (exHidden k)" by (simp add: exHidden_def)
  from l v h have "l = exTop" unfolding ls by auto
  with m have "m = exPixelMask" by (simp add: exTop_def exMany_eval(3))
  then show "binaryMask (dimensions_width exMany) (dimensions_height exMany) m"
    unfolding exMany_eval by (simp add: binaryMask_def exPixelMask_def getPixel_def white_def)
qed

lemma exMany_export:
  "processExport Training_mask exMany =
     Some \<lparr>width = 1, height = 1, data = [255, 255, 255, 255]\<rparr>"
proof -
  have px: "getPixel exPixel 0 0 = RGBA 200 0 0 255" "getPixel exPixelMask 0 0 = white"
    by (simp_all add: getPixel_def exPixel_def exPixelMask_def white_def)
  have byte: "\<forall>x<dimensions_width exMany. \<forall>y<dimensions_height exMany.
                alpha (getPixel exPixel x y) \<le> 255"
    by (simp add: exMany_eval px)
  have pos: "0 < dimensions_width exMany" by (simp add: exMany_eval)
  from export_training_pixel[OF exMany_eval(4) pos exMany_binary byte]
  obtain out where o: "processExport Training_mask exMany = Some out"
    and d: "width out = 1" "height out = 1"
    and c: "\<forall>i<256. paintedBy exMany (layers exMany) i 0 0 \<and>
                (\<forall>j<256. i < j \<longrightarrow> \<not> paintedBy exMany (layers exMany) j 0 0) \<longrightarrow>
                getPixel out 0 0 = rgbStyle (i + 1)"
    unfolding exMany_eval by (auto simp: px)
  have p: "paintedBy exMany (layers exMany) 255 0 0"
    unfolding paintedBy_def exMany_eval covers_def
    by (simp add: exTop_def exMany_eval px)
  have later: "\<forall>j<256. (255::nat) < j \<longrightarrow> \<not> paintedBy exMany (layers exMany) j 0 0"
    by simp
  have "(255::nat) < 256" by simp
  with c p later have "getPixel out 0 0 = rgbStyle (255 + 1)" by blast
  then have "getPixel out 0 0 = rgbStyle 256" by simp
  then have "getPixel out 0 0 = RGBA 255 255 255 255" by (simp add: rgbStyle_def)
  with d processExport_length[OF o]
  have "out = \<lparr>width = 1, height = 1, data = [255, 255, 255, 255]\<rparr>" by (intro canvas11_eq)
  with o show ?thesis by simp
qed

text \<open>
  C3 (as stated). The claim gives the layer in position 256 of the registry the colour
  (256, 256, 256). In the session below that layer is visible and its mask covers the only
  pixel of a fully opaque image; the export holds (255, 255, 255) there, the largest value
  a channel can take.
\<close>

theorem training_mask_counterexample:
  "length (layers exMany) = 256 \<and> layers exMany ! 255 = exTop \<and> isVisible exTop \<and>
   maskCanvases exMany (layer_id exTop) = Some exPixelMask \<and>
   getPixel exPixelMask 0 0 = white \<and> alpha (getPixel exPixel 0 0) = 255 \<and>
   processExport Training_mask exMany =
     Some \<lparr>width = 1, height = 1, data = [255, 255, 255, 255]\<rparr> \<and>
   getPixel \<lparr>width = 1, height = 1, data = [255, 255, 255, 255]\<rparr> 0 0 \<noteq> RGBA 256 256 256 255"
  unfolding exMany_export exMany_eval
  by (simp add: exTop_def exMany_eval getPixel_def exPixelMask_def exPixel_def white_def)

text \<open>
  C3 (amended). With binary masks on the visible layers, the \<open>training_mask\<close> export is
  fully opaque everywhere. Where the source image is fully transparent it is black. Where
  the source image is fully opaque, a pixel covered by the mask of a visible layer and by
  no mask of a visible layer later in the registry holds the grey (c, c, c) with c the
  smaller of that layer's 1-based position in the registry and 255, and a pixel covered by
  no mask of a visible layer is black. In particular, for a registry of two visible layers
  of which the second's mask lies within the first's and a fully opaque source, the export
  holds 2 on the second mask, 1 on the rest of the first and 0 elsewhere.
\<close>

theorem training_mask_export:
  assumes "imageRef s = Some img" and "0 < dimensions_width s" and "visibleMasksBinary s"
    and "\<forall>x<dimensions_width s. \<forall>y<dimensions_height s. alpha (getPixel img x y) \<le> 255"
  shows "\<exists>out. processExport Training_mask s = Some out \<and>
           width out = dimensions_width s \<and> height out = dimensions_height s \<and>
           (\<forall>x<dimensions_width s. \<forall>y<dimensions_height s.
              alpha (getPixel out x y) = 255 \<and>
              (alpha (getPixel img x y) = 0 \<longrightarrow> getPixel out x y = black) \<and>
              (alpha (getPixel img x y) = 255 \<longrightarrow>
                 (\<forall>i<length (layers s).
                    paintedBy s (layers s) i x y \<and>
                    (\<forall>j<length (layers s). i < j \<longrightarrow> \<not> paintedBy s (layers s) j x y) \<longrightarrow>
                    getPixel out x y =
                      RGBA (min (i + 1) 255) (min (i + 1) 255) (min (i + 1) 255) 255) \<and>
                 ((\<forall>i<length (layers s). \<not> paintedBy s (layers s) i x y) \<longrightarrow>
                    getPixel out x y = black) \<and>
                 (\<forall>l1 l2 m1 m2.
                    layers s = [l1, l2] \<and> isVisible l1 \<and> isVisible l2 \<and>
                    maskCanvases s (layer_id l1) = Some m1 \<and>
                    maskCanvases s (layer_id l2) = Some m2 \<and>
                    (covers m2 x y \<longrightarrow> covers m1 x y) \<longrightarrow>
                    getPixel out x y =
                      (if covers m2 x y then RGBA 2 2 2 255
                       else if covers m1 x y then RGBA 1 1 1 255 else RGBA 0 0 0 255))))"
proof -
  from export_training_pixel[OF assms] obtain out where
    o: "processExport Training_mask s = Some out"
    and d: "width out = dimensions_width s" "height out = dimensions_height s"
    and px: "\<forall>x<dimensions_width s. \<forall>y<dimensions_height s.
              alpha (getPixel out x y) = 255 \<and>
              (alpha (getPixel img x y) = 0 \<longrightarrow> getPixel out x y = black) \<and>
              (alpha (getPixel img x y) = 255 \<longrightarrow>
                 (\<forall>i<length (layers s).
                    paintedBy s (layers s) i x y \<and>
                    (\<forall>j<length (layers s). i < j \<longrightarrow> \<not> paintedBy s (layers s) j x y) \<longrightarrow>
                    getPixel out x y = rgbStyle (i + 1)) \<and>
                 ((\<forall>i<length (layers s). \<not> paintedBy s (layers s) i x y) \<longrightarrow>
                    getPixel out x y = black))"
    by blast
  have two: "\<forall>x<dimensions_width s. \<forall>y<dimensions_height s.
               alpha (getPixel img x y) = 255 \<longrightarrow>
                 (\<forall>l1 l2 m1 m2.
                    layers s = [l1, l2] \<and> isVisible l1 \<and> isVisible l2 \<and>
                    maskCanvases s (layer_id l1) = Some m1 \<and>
                    maskCanvases s (layer_id l2) = Some m2 \<and>
                    (covers m2 x y \<longrightarrow> covers m1 x y) \<longrightarrow>
                    getPixel out x y =
                      (if covers m2 x y then RGBA 2 2 2 255
                       else if covers m1 x y then RGBA 1 1 1 255 else RGBA 0 0 0 255))"
  proof (intro allI impI)
    fix x y l1 l2 m1 m2
    assume xy: "x < dimensions_width s" "y < dimensions_height s"
      and op: "alpha (getPixel img x y) = 255"
      and h: "layers s = [l1, l2] \<and> isVisible l1 \<and> isVisible l2 \<and>
              maskCanvases s (layer_id l1) = Some m1 \<and>
              maskCanvases s (layer_id l2) = Some m2 \<and>
              (covers m2 x y \<longrightarrow> covers m1 x y)"
    from h have ls: "layers s = [l1, l2]" by simp
    from h have p0: "paintedBy s [l1, l2] 0 x y = covers m1 x y"
      and p1: "paintedBy s [l1, l2] (Suc 0) x y = covers m2 x y"
      by (simp_all add: paintedBy_def)
    from px xy op have
      some: "\<And>i. i < 2 \<Longrightarrow> paintedBy s [l1, l2] i x y \<Longrightarrow>
                  (\<forall>j<2. i < j \<longrightarrow> \<not> paintedBy s [l1, l2] j x y) \<Longrightarrow>
                  getPixel out x y = rgbStyle (i + 1)"
      and none: "(\<forall>i<2. \<not> paintedBy s [l1, l2] i x y) \<Longrightarrow> getPixel out x y = black"
      unfolding ls by simp_all
    have all2: "\<And>P. (\<forall>j<2. P j) = (P 0 \<and> P (Suc 0))"
      by (auto simp: less_Suc_eq numeral_2_eq_2)
    show "getPixel out x y =
            (if covers m2 x y then RGBA 2 2 2 255
             else if covers m1 x y then RGBA 1 1 1 255 else RGBA 0 0 0 255)"
    proof (cases "covers m2 x y")
      case True
      with some[of "Suc 0"] p1 show ?thesis by (simp add: all2 rgbStyle_def)
    next
      case False
      show ?thesis
      proof (cases "covers m1 x y")
        case True
        with some[of 0] p0 p1 False show ?thesis by (simp add: all2 rgbStyle_def)
      next
        case c: False
        with none p0 p1 False show ?thesis by (simp add: all2 black_def)
      qed
    qed
  qed
  from o d px two show ?thesis
    by (intro exI[of _ out]) (simp add: rgbStyle_def)
qed

lemma exNested_eval:
  "imageRef exNested = Some exSource" "0 < dimensions_width exNested"
  "layers exNested = [exFg, exInst]" "isVisible exFg" "isVisible exInst"
  "maskCanvases exNested (layer_id exFg) = Some exWhole"
  "maskCanvases exNested (layer_id exInst) = Some exLeft"
  "dimensions_width exNested = 2" "dimensions_height exNested = 1"
  by (simp_all add: exNested_def exTwo_def exState_def exFg_def exInst_def)

lemma ex_covers:
  "covers exLeft 0 0" "\<not> covers exLeft (Suc 0) 0" "covers exWhole 0 0" "covers exWhole (Suc 0) 0"
  by (simp_all add: covers_def ex_pixels) (simp add: white_def transparent_def)

lemma exNested_alpha:
  "\<forall>x<dimensions_width exNested. \<forall>y<dimensions_height exNested.
     alpha (getPixel exSource x y) \<le> 255"
  unfolding exNested_eval(8,9) by (auto simp: less_Suc_eq numeral_2_eq_2 ex_pixels)

lemma exNested_binary: "visibleMasksBinary exNested"
  unfolding visibleMasksBinary_def exNested_eval(3,8,9)
  using ex_binary exNested_eval(6,7) by auto

theorem training_mask_export_witness:
  "imageRef exNested = Some exSource \<and> 0 < dimensions_width exNested \<and>
   visibleMasksBinary exNested \<and>
   dimensions_width exNested = 2 \<and> dimensions_height exNested = 1 \<and>
   alpha (getPixel exSource 0 0) = 255 \<and> alpha (getPixel exSource 1 0) = 255 \<and>
   layers exNested = [exFg, exInst] \<and> isVisible exFg \<and> isVisible exInst \<and>
   maskCanvases exNested (layer_id exFg) = Some exWhole \<and>
   maskCanvases exNested (layer_id exInst) = Some exLeft \<and>
   covers exLeft 0 0 \<and> \<not> covers exLeft 1 0 \<and> covers exWhole 0 0 \<and> covers exWhole 1 0 \<and>
   processExport Training_mask exNested =
     Some \<lparr>width = 2, height = 1, data = [2, 2, 2, 255, 1, 1, 1, 255]\<rparr>"
proof -
  note h = exNested_eval
  have c: "covers exLeft 0 0" "\<not> covers exLeft 1 0" "covers exWhole 0 0" "covers exWhole 1 0"
    using ex_covers by simp_all
  have op: "alpha (getPixel exSource 0 0) = 255" "alpha (getPixel exSource 1 0) = 255"
    by (simp_all add: ex_pixels)
  have hyp: "layers exNested = [exFg, exInst] \<and> isVisible exFg \<and> isVisible exInst \<and>
             maskCanvases exNested (layer_id exFg) = Some exWhole \<and>
             maskCanvases exNested (layer_id exInst) = Some exLeft"
    using h(3-7) by (intro conjI)
  have e: "processExport Training_mask exNested =
             Some \<lparr>width = 2, height = 1, data = [2, 2, 2, 255, 1, 1, 1, 255]\<rparr>"
    using training_mask_export[OF h(1,2) exNested_binary exNested_alpha]
  proof (elim exE conjE)
    fix out
    assume o: "processExport Training_mask exNested = Some out"
      and d: "width out = dimensions_width exNested" "height out = dimensions_height exNested"
      and px: "\<forall>x<dimensions_width exNested. \<forall>y<dimensions_height exNested.
              alpha (getPixel out x y) = 255 \<and>
              (alpha (getPixel exSource x y) = 0 \<longrightarrow> getPixel out x y = black) \<and>
              (alpha (getPixel exSource x y) = 255 \<longrightarrow>
                 (\<forall>i<length (layers exNested).
                    paintedBy exNested (layers exNested) i x y \<and>
                    (\<forall>j<length (layers exNested). i < j \<longrightarrow>
                       \<not> paintedBy exNested (layers exNested) j x y) \<longrightarrow>
                    getPixel out x y =
                      RGBA (min (i + 1) 255) (min (i + 1) 255) (min (i + 1) 255) 255) \<and>
                 ((\<forall>i<length (layers exNested). \<not> paintedBy exNested (layers exNested) i x y) \<longrightarrow>
                    getPixel out x y = black) \<and>
                 (\<forall>l1 l2 m1 m2.
                    layers exNested = [l1, l2] \<and> isVisible l1 \<and> isVisible l2 \<and>
                    maskCanvases exNested (layer_id l1) = Some m1 \<and>
                    maskCanvases exNested (layer_id l2) = Some m2 \<and>
                    (covers m2 x y \<longrightarrow> covers m1 x y) \<longrightarrow>
                    getPixel out x y =
                      (if covers m2 x y then RGBA 2 2 2 255
                       else if covers m1 x y then RGBA 1 1 1 255 else RGBA 0 0 0 255)))"
    have two: "getPixel out x 0 =
                (if covers exLeft x 0 then RGBA 2 2 2 255
                 else if covers exWhole x 0 then RGBA 1 1 1 255 else RGBA 0 0 0 255)"
      if x: "x < 2" and a: "alpha (getPixel exSource x 0) = 255"
        and n: "covers exLeft x 0 \<longrightarrow> covers exWhole x 0" for x
    proof -
      from x have x': "x < dimensions_width exNested" by (simp add: h(8))
      have y': "(0::nat) < dimensions_height exNested" by (simp add: h(9))
      note p = px[rule_format, OF x' y']
      note q = p[THEN conjunct2, THEN conjunct2, THEN mp, OF a]
      note r = q[THEN conjunct2, THEN conjunct2, THEN spec[where x = exFg],
                 THEN spec[where x = exInst], THEN spec[where x = exWhole],
                 THEN spec[where x = exLeft]]
      have
        "layers exNested = [exFg, exInst] \<and> isVisible exFg \<and> isVisible exInst \<and>
              maskCanvases exNested (layer_id exFg) = Some exWhole \<and>
              maskCanvases exNested (layer_id exInst) = Some exLeft \<and>
              (covers exLeft x 0 \<longrightarrow> covers exWhole x 0)"
        using h(3-7) n by (intro conjI)
      with r show ?thesis by (rule mp)
    qed
    from two[of 0] op(1) c have p0: "getPixel out 0 0 = RGBA 2 2 2 255" by simp
    from two[of 1] op(2) c have p1: "getPixel out 1 0 = RGBA 1 1 1 255" by simp
    have d': "width out = 2" "height out = 1" using d by (simp_all add: h(8,9))
    have "out = \<lparr>width = 2, height = 1, data = [2, 2, 2, 255, 1, 1, 1, 255]\<rparr>"
      by (rule canvas21_eq[OF d' processExport_length[OF o] p0 p1])
    with o show ?thesis by simp
  qed
  from h(1,2,8,9) exNested_binary op hyp c e show ?thesis by (intro conjI) simp_all
qed

lemma region_notin:
  assumes "q \<noteq> seed" and "\<not> matches (fst q) (snd q)"
  shows "q \<notin> region w h matches seed"
proof
  assume "q \<in> region w h matches seed"
  then show False using assms by cases simp_all
qed

lemma exContrast_fill:
  "performFloodFill 0 0 exContrast =
     Some (captureSnapshot (exContrast\<lparr>maskCanvases := [''fg'' \<mapsto> exLeft]\<rparr>))"
proof -
  let ?src = "[0, 0, 0, 255, 255, 255, 255, 255::nat]"
  have a: "sourceImageData exContrast = Some ?src"
    "length ?src = 4 * (dimensions_width exContrast * dimensions_height exContrast)"
    "maskCanvases exContrast (activeLayerId exContrast) = Some exBlank"
    "width exBlank = dimensions_width exContrast" "height exBlank = dimensions_height exContrast"
    "length (data exBlank) = 4 * (dimensions_width exContrast * dimensions_height exContrast)"
    "0 \<le> \<lfloor>0::real\<rfloor>" "\<lfloor>0::real\<rfloor> < int (dimensions_width exContrast)"
    "0 \<le> \<lfloor>0::real\<rfloor>" "\<lfloor>0::real\<rfloor> < int (dimensions_height exContrast)"
    by (simp_all add: exContrast_def exState_def exBlank_def)
  have d: "dimensions_width exContrast = 2" "dimensions_height exContrast = 1"
    "activeLayerId exContrast = ''fg''" "tolerance exContrast = 100"
    "maskCanvases exContrast = [''fg'' \<mapsto> exBlank]"
    by (simp_all add: exContrast_def exState_def)
  from performFloodFill_pixels[OF a]
  obtain s' m' where r: "performFloodFill 0 0 exContrast = Some s'"
    and wh: "width m' = 2" "height m' = 1"
    and px: "\<forall>x<2. \<forall>y<1. getPixel m' x y =
               (if (x, y) \<in> region 2 1 (pixelSimilar ?src 2 (mulD 100 (toDouble 2.55)) 0 0) (0, 0)
                then white else getPixel exBlank x y)"
    and len: "length (data m') = 4 * (2 * 1)"
    and s': "s' = captureSnapshot (exContrast\<lparr>maskCanvases := [''fg'' \<mapsto> exBlank](''fg'' \<mapsto> m')\<rparr>)"
    unfolding d by auto
  have "\<not> pixelSimilar ?src 2 (mulD 100 (toDouble 2.55)) 0 0 1 0"
    unfolding threshold_100 by (simp add: pixelSimilar_def)
  then have out: "(1, 0) \<notin> region 2 1 (pixelSimilar ?src 2 (mulD 100 (toDouble 2.55)) 0 0) (0, 0)"
    by (intro region_notin) simp_all
  from px have p0: "getPixel m' 0 0 = RGBA 255 255 255 255"
    by (simp add: region_seed white_def)
  from px out have p1: "getPixel m' 1 0 = RGBA 0 0 0 0"
    by (simp add: ex_pixels transparent_def)
  from wh len have l: "length (data m') = 4 * (width m' * height m')" by simp
  have "m' = exLeft"
    unfolding exLeft_def using wh l p0 p1 by (rule canvas21_eq)
  with r s' show ?thesis by simp
qed

lemma exState_fill:
  "performFloodFill (1 / 2) (1 / 5) exState =
     Some (captureSnapshot (exState\<lparr>maskCanvases := [''fg'' \<mapsto> exLeft]\<rparr>))"
proof -
  let ?src = "[10, 10, 10, 255, 200, 200, 200, 255::nat]"
  have f: "\<lfloor>1 / 2 :: real\<rfloor> = 0" "\<lfloor>1 / 5 :: real\<rfloor> = 0" by simp_all
  have a: "sourceImageData exState = Some ?src"
    "length ?src = 4 * (dimensions_width exState * dimensions_height exState)"
    "maskCanvases exState (activeLayerId exState) = Some exBlank"
    "width exBlank = dimensions_width exState" "height exBlank = dimensions_height exState"
    "length (data exBlank) = 4 * (dimensions_width exState * dimensions_height exState)"
    "0 \<le> \<lfloor>1 / 2 :: real\<rfloor>" "\<lfloor>1 / 2 :: real\<rfloor> < int (dimensions_width exState)"
    "0 \<le> \<lfloor>1 / 5 :: real\<rfloor>" "\<lfloor>1 / 5 :: real\<rfloor> < int (dimensions_height exState)"
    unfolding f by (simp_all add: exState_def exBlank_def)
  have d: "dimensions_width exState = 2" "dimensions_height exState = 1"
    "activeLayerId exState = ''fg''" "tolerance exState = 30"
    "maskCanvases exState = [''fg'' \<mapsto> exBlank]"
    by (simp_all add: exState_def)
  from performFloodFill_pixels[OF a]
  obtain s' m' where r: "performFloodFill (1 / 2) (1 / 5) exState = Some s'"
    and wh: "width m' = 2" "height m' = 1"
    and px: "\<forall>x<2. \<forall>y<1. getPixel m' x y =
               (if (x, y) \<in> region 2 1 (pixelSimilar ?src 2 (mulD 30 (toDouble 2.55)) 0 0) (0, 0)
                then white else getPixel exBlank x y)"
    and len: "length (data m') = 4 * (2 * 1)"
    and s': "s' = captureSnapshot (exState\<lparr>maskCanvases := [''fg'' \<mapsto> exBlank](''fg'' \<mapsto> m')\<rparr>)"
    unfolding d f by auto
  have "\<not> pixelSimilar ?src 2 (mulD 30 (toDouble 2.55)) 0 0 1 0"
    unfolding threshold_30 by (simp add: pixelSimilar_def)
  then have out: "(1, 0) \<notin> region 2 1 (pixelSimilar ?src 2 (mulD 30 (toDouble 2.55)) 0 0) (0, 0)"
    by (intro region_notin) simp_all
  from px have p0: "getPixel m' 0 0 = RGBA 255 255 255 255"
    by (simp add: region_seed white_def)
  from px out have p1: "getPixel m' 1 0 = RGBA 0 0 0 0"
    by (simp add: ex_pixels transparent_def)
  from wh len have l: "length (data m') = 4 * (width m' * height m')" by simp
  have "m' = exLeft"
    unfolding exLeft_def using wh l p0 p1 by (rule canvas21_eq)
  with r s' show ?thesis by simp
qed

text \<open>
  C8. Flood fill is idempotent: a second fill with the same seed and tolerance, right after
  the first, leaves every mask as the first fill left it.
\<close>

theorem performFloodFill_idempotent:
  assumes "\<forall>m. maskCanvases s (activeLayerId s) = Some m \<longrightarrow>
             length (data m) = 4 * (dimensions_width s * dimensions_height s)"
  shows "\<exists>s1 s2. performFloodFill X Y s = Some s1 \<and> performFloodFill X Y s1 = Some s2 \<and>
                 maskCanvases s2 = maskCanvases s1"
  using assms by (rule performFloodFill_twice)

theorem performFloodFill_idempotent_witness:
  "\<exists>s1 s2. performFloodFill (1 / 2) (1 / 5) exState = Some s1 \<and>
           performFloodFill (1 / 2) (1 / 5) s1 = Some s2 \<and>
           maskCanvases s2 = maskCanvases s1 \<and>
           maskCanvases s1 ''fg'' =
             Some \<lparr>width = 2, height = 1, data = [255, 255, 255, 255, 0, 0, 0, 0]\<rparr>"
proof -
  have "\<forall>m. maskCanvases exState (activeLayerId exState) = Some m \<longrightarrow>
             length (data m) = 4 * (dimensions_width exState * dimensions_height exState)"
    by (simp add: exState_def exBlank_def)
  from performFloodFill_idempotent[OF this, of "1 / 2" "1 / 5"]
  obtain s1 s2 where r: "performFloodFill (1 / 2) (1 / 5) exState = Some s1"
    "performFloodFill (1 / 2) (1 / 5) s1 = Some s2" "maskCanvases s2 = maskCanvases s1"
    by blast
  from r(1) have "maskCanvases s1 ''fg'' =
          Some \<lparr>width = 2, height = 1, data = [255, 255, 255, 255, 0, 0, 0, 0]\<rparr>"
    unfolding exState_fill by (auto simp: captureSnapshot_fields exLeft_def)
  with r show ?thesis by auto
qed

lemma createCanvas_2_1: "createCanvas 2 1 = exBlank" "createCanvas 2 (Suc 0) = exBlank"
proof -
  show "createCanvas 2 1 = exBlank"
    unfolding exBlank_def
    by (rule canvas21_eq)
       (simp_all add: createCanvas_def width_mkCanvas height_mkCanvas length_mkCanvas
          getPixel_mkCanvas transparent_def)
  then show "createCanvas 2 (Suc 0) = exBlank" by simp
qed

lemma exStroked_eval:
  "maskCanvases exStroked ''fg'' = Some exLeft"
  "layers exStroked = [exFg]"
  "historyPast exStroked = [\<lparr>layers_item = [exFg], masks_item = \<lparr>ident = 0, entries = Map.empty\<rparr>\<rparr>]"
  "historyFuture exStroked = []"
  "entries (currentMasks exStroked) ''fg'' = Some (PngUrl exLeft)"
  "restoredMasks exStroked = Some \<lparr>ident = 1, entries = Map.empty\<rparr>"
  "restorationDeps exStroked = Some 1"
  "activeLayerId exStroked = ''fg''"
  "dimensions_width exStroked = 2" "dimensions_height exStroked = 1"
  by (simp_all add: exStroked_def commitEffects_def handlePointerUp_def exStroke_def exState_def
        captureSnapshot_def handleSnapshot_def pushToHistory_def ensureMasks_def Let_def
        toDataURL_def exFg_def)

lemma exUndone_eval:
  "maskCanvases exUndone ''fg'' = Some exBlank"
  "layers exUndone = [exFg]"
  "historyPast exUndone = []"
  "historyFuture exUndone = [\<lparr>layers_item = [exFg], masks_item = \<lparr>ident = 0, entries = Map.empty\<rparr>\<rparr>]"
  "currentMasks exUndone = \<lparr>ident = 0, entries = Map.empty\<rparr>"
  "restoredMasks exUndone = Some \<lparr>ident = 0, entries = Map.empty\<rparr>"
  "restorationDeps exUndone = Some 0"
  "activeLayerId exUndone = ''fg''"
  "dimensions_width exUndone = 2" "dimensions_height exUndone = 1"
  by (simp_all add: exUndone_def commitEffects_def handleUndo_def handleUndoIn_def exStroked_eval
        ensureMasks_def handleRestoration_def Let_def clearRect_def exLeft_def createCanvas_2_1
        exFg_def)

lemma exRedone_eval:
  "maskCanvases exRedone ''fg'' = Some exBlank"
  "layers exRedone = [exFg]"
  "historyPast exRedone = [\<lparr>layers_item = [exFg], masks_item = \<lparr>ident = 0, entries = Map.empty\<rparr>\<rparr>]"
  "historyFuture exRedone = []"
  "currentMasks exRedone = \<lparr>ident = 0, entries = Map.empty\<rparr>"
  by (simp_all add: exRedone_def commitEffects_def handleRedo_def handleRedoIn_def exUndone_eval
        ensureMasks_def handleRestoration_def Let_def exFg_def)

lemma exAdded_eval:
  "map layer_id (layers exAdded) = [''fg'', ''inst-1700000000000'']"
  "activeLayerId exAdded = ''inst-1700000000000''"
  "keyActiveLayerId exAdded = ''inst-1700000000000''"
  "map layers_item (historyPast exAdded) = [[exFg]]"
  "historyFuture exAdded = []"
  by (simp_all add: exAdded_def commitEffects_def addLayer_def pushToHistory_def exState_def
        ensureMasks_def handleRestoration_def Let_def exFg_def)

lemma exReadded_eval:
  "map layer_id (layers exReadded) = [''fg'', ''inst-1700000000000'']"
  "activeLayerId exReadded = ''fg''"
  "keyActiveLayerId exReadded = ''fg''"
  "map layers_item (historyPast exReadded) = [[exFg]]"
  "historyFuture exReadded = []"
  by (simp_all add: exReadded_def exAdded_def commitEffects_def addLayer_def pushToHistory_def
        exState_def handleUndo_def handleUndoIn_def handleRedo_def handleRedoIn_def
        firstLayerId_def ensureMasks_def handleRestoration_def Let_def exFg_def)

lemma exPicked_eval:
  "map layer_id (layers exPicked) = [''fg'', ''inst-1700000000000'']"
  "activeLayerId exPicked = ''inst-1700000000000''"
  "keyActiveLayerId exPicked = ''fg''"
  "map layers_item (historyPast exPicked) = [[exFg]]"
  by (simp_all add: exPicked_def exReadded_def exAdded_def selectLayer_def commitEffects_def addLayer_def pushToHistory_def
        exState_def handleUndo_def handleUndoIn_def handleRedo_def handleRedoIn_def
        firstLayerId_def ensureMasks_def handleRestoration_def Let_def exFg_def)

lemma exKeyUndone_eval:
  "map layer_id (layers exKeyUndone) = [''fg'']"
  "activeLayerId exKeyUndone = ''inst-1700000000000''"
  by (simp_all add: exKeyUndone_def exCtrlZ_def handleKeyDown_def exPicked_def exReadded_def exAdded_def selectLayer_def commitEffects_def addLayer_def pushToHistory_def
        exState_def handleUndo_def handleUndoIn_def handleRedo_def handleRedoIn_def
        firstLayerId_def ensureMasks_def handleRestoration_def Let_def exFg_def)

lemma exStroked_key:
  "commitEffects (handleKeyDown exCtrlZ exStroked) = exUndone"
  by (simp add: exUndone_def handleKeyDown_def exCtrlZ_def handleUndo_def exStroked_def
        commitEffects_def handlePointerUp_def exStroke_def exState_def
        captureSnapshot_def handleSnapshot_def pushToHistory_def ensureMasks_def Let_def)

text \<open>
  C4 (the code on two sessions). After one brush stroke over the left pixel, undo leaves the
  mask all transparent, yet the entry it puts on the future holds the masks it has just
  restored and not those of the stroke: the function given to \<open>setHistoryFuture\<close> reads
  \<open>currentMasksRef.current\<close> when it is called, after the handler has overwritten it.
  Redo after that undo leaves the mask all transparent, where the stroke should return;
  Ctrl+Z and the undo button do the same here. In the second session a layer is added, the
  addition undone and redone, the new layer selected and Ctrl+Z pressed: the listener tests
  the \<open>activeLayerId\<close> of an earlier render, so the active layer stays the one the
  restored registry no longer holds.
\<close>

theorem undo_redo_loses_stroke:
  "maskCanvases exStroked ''fg'' = Some exLeft \<and>
   entries (currentMasks exStroked) ''fg'' = Some (PngUrl exLeft) \<and>
   maskCanvases exUndone ''fg'' = Some exBlank \<and>
   historyPast exUndone = [] \<and>
   historyFuture exUndone =
     [\<lparr>layers_item = [exFg], masks_item = \<lparr>ident = 0, entries = Map.empty\<rparr>\<rparr>] \<and>
   commitEffects (handleKeyDown exCtrlZ exStroked) = exUndone \<and>
   maskCanvases exRedone ''fg'' = Some exBlank \<and>
   exBlank \<noteq> exLeft \<and>
   map layer_id (layers exPicked) = [''fg'', ''inst-1700000000000''] \<and>
   activeLayerId exPicked = ''inst-1700000000000'' \<and>
   map layer_id (layers exKeyUndone) = [''fg''] \<and>
   activeLayerId exKeyUndone = ''inst-1700000000000''"
  by (simp add: exStroked_eval exUndone_eval exRedone_eval exStroked_key exPicked_eval
        exKeyUndone_eval)
     (simp add: exBlank_def exLeft_def)




lemma inStep_fields:
  "maskCanvases s' = maskCanvases s \<Longrightarrow> currentMasks s' = currentMasks s \<Longrightarrow> inStep s' = inStep s"
  by (simp add: inStep_def)













lemma exSoft_export:
  "processExport White_bg exSoft = Some \<lparr>width = 1, height = 1, data = [132, 132, 132, 255]\<rparr>"
  "processExport Rgba exSoft = Some \<lparr>width = 1, height = 1, data = [10, 10, 10, 128]\<rparr>"
proof -
  define img where "img = \<lparr>width = 1, height = 1, data = [10, 10, 10, 255]\<rparr>"
  define m where "m = \<lparr>width = 1, height = 1, data = [255, 255, 255, 128]\<rparr>"
  define blank where "blank = createCanvas 1 1"
  define mask where "mask = drawImage SourceOver m blank"
  define base where "base = drawImage SourceOver img blank"
  define cut where "cut = drawImage DestinationIn mask base"
  define bg where "bg = fillRect SourceOver white blank"
  define out where "out = drawImage SourceOver cut bg"
  have d: "(0::nat) < width blank" "(0::nat) < height blank" "(0::nat) < width base"
    "(0::nat) < height base" "(0::nat) < width bg" "(0::nat) < height bg"
    "width cut = 1" "height cut = 1" "width out = 1" "height out = 1"
    by (simp_all add: blank_def base_def bg_def cut_def out_def width_drawImage height_drawImage
          width_fillRect height_fillRect width_createCanvas height_createCanvas)
  have px: "getPixel img 0 0 = RGBA 10 10 10 255" "getPixel m 0 0 = RGBA 255 255 255 128"
    "getPixel blank 0 0 = transparent"
    by (simp_all add: img_def m_def blank_def getPixel_createCanvas) (simp_all add: getPixel_def)
  have mp: "getPixel mask 0 0 = RGBA 255 255 255 128"
    unfolding mask_def getPixel_drawImage[OF d(1,2)] px
    by (simp add: source_over_def transparent_def Let_def)
  have ip: "getPixel base 0 0 = RGBA 10 10 10 255"
    unfolding base_def getPixel_drawImage[OF d(1,2)] px
    by (simp add: source_over_def transparent_def Let_def)
  have cp: "getPixel cut 0 0 = RGBA 10 10 10 128"
    unfolding cut_def getPixel_drawImage[OF d(3,4)] mp ip
    by (simp add: destination_in_def Let_def)
  have bp: "getPixel bg 0 0 = white"
    unfolding bg_def getPixel_fillRect[OF d(1,2)] by (simp add: source_over_white)
  have wp: "getPixel out 0 0 = RGBA 132 132 132 255"
    unfolding out_def getPixel_drawImage[OF d(5,6)] cp bp
    by (simp add: source_over_def white_def Let_def)
  have cm: "getCompositeMask exSoft = mask"
    by (simp add: getCompositeMask_def exSoft_def exState_def exFg_def mask_def m_def blank_def)
  have w: "processExport White_bg exSoft = Some out"
    unfolding processExport_def cm
    by (simp add: exSoft_def exState_def Let_def out_def cut_def base_def bg_def blank_def img_def)
  have "0 < width mask" by (simp add: mask_def width_drawImage d)
  then have r: "processExport Rgba exSoft = Some cut"
    unfolding processExport_def cm
    by (simp add: exSoft_def exState_def Let_def cut_def base_def blank_def img_def)
  have "out = \<lparr>width = 1, height = 1, data = [132, 132, 132, 255]\<rparr>"
    using d(9,10) processExport_length[OF w] wp by (rule canvas11_eq)
  with w show "processExport White_bg exSoft =
                 Some \<lparr>width = 1, height = 1, data = [132, 132, 132, 255]\<rparr>" by simp
  have "cut = \<lparr>width = 1, height = 1, data = [10, 10, 10, 128]\<rparr>"
    using d(7,8) processExport_length[OF r] cp by (rule canvas11_eq)
  with r show "processExport Rgba exSoft =
                 Some \<lparr>width = 1, height = 1, data = [10, 10, 10, 128]\<rparr>" by simp
qed

text \<open>
  C7 (as stated). The claim allows two values for a pixel of the \<open>white_bg\<close> export, the
  pixel of the source image and opaque white, and two for a pixel of the \<open>rgba\<close>
  export, the pixel of the source image and full transparency. In the session below the
  only mask pixel of the visible layer is half transparent: the \<open>white_bg\<close> export holds
  the source blended with white, the \<open>rgba\<close> export the source at half its opacity.
\<close>

theorem union_export_counterexample:
  "layers exSoft = [exFg] \<and> isVisible exFg \<and>
   imageRef exSoft = Some \<lparr>width = 1, height = 1, data = [10, 10, 10, 255]\<rparr> \<and>
   maskCanvases exSoft (layer_id exFg) =
     Some \<lparr>width = 1, height = 1, data = [255, 255, 255, 128]\<rparr> \<and>
   processExport White_bg exSoft = Some \<lparr>width = 1, height = 1, data = [132, 132, 132, 255]\<rparr> \<and>
   processExport Rgba exSoft = Some \<lparr>width = 1, height = 1, data = [10, 10, 10, 128]\<rparr>"
  by (simp add: exSoft_export) (simp add: exSoft_def exState_def exFg_def)

















lemma roundTiesToEven_tie:
  assumes "x = of_int m - 1 / 2" and "even m"
  shows "roundTiesToEven x = m"
proof -
  from assms(1) have f: "\<lfloor>x\<rfloor> = m - 1" by (intro floor_unique) simp_all
  from assms(2) have "odd (m - 1)" by simp
  with f assms(1) show ?thesis by (simp add: roundTiesToEven_def Let_def)
qed

lemma toDouble_tie:
  assumes e: "pow2 e \<le> \<bar>x\<bar>" "\<bar>x\<bar> < pow2 (e + 1)" "- 1021 \<le> e" "e \<le> 1023"
    and n: "x / pow2 (e - 52) = of_int m - 1 / 2" "even m"
  shows "toDouble x = of_int m * pow2 (e - 52)"
  unfolding toDouble_def exponent_eq[OF e] Let_def roundTiesToEven_tie[OF n] ..

lemma roundTiesToEven_error: "\<bar>of_int (roundTiesToEven x) - x\<bar> \<le> 1 / 2"
proof -
  have "of_int \<lfloor>x\<rfloor> \<le> x" "x < of_int \<lfloor>x\<rfloor> + 1" by linarith+
  then show ?thesis
    by (auto simp: roundTiesToEven_def Let_def abs_le_iff)
qed

lemma pow2_pos: "0 < pow2 e"
  by (simp add: pow2_powi)

lemma pow2_strict_mono: "pow2 a < pow2 b \<Longrightarrow> a < b"
  using pow2_mono[of b a] by (rule_tac ccontr) simp

lemma exponentFrom_le:
  "x < pow2 (e + 1) \<Longrightarrow> - 1022 \<le> e \<Longrightarrow> exponentFrom n x \<le> e"
proof (induction n)
  case 0
  then show ?case by simp
next
  case (Suc n)
  show ?case
  proof (cases "pow2 (int n - 1021) \<le> x")
    case True
    with Suc.prems(1) have "pow2 (int n - 1021) < pow2 (e + 1)" by simp
    then have "int n - 1021 < e + 1" by (rule pow2_strict_mono)
    with True show ?thesis by simp
  next
    case False
    with Suc show ?thesis by simp
  qed
qed

lemma toDouble_error:
  assumes "\<bar>x\<bar> < pow2 (e + 1)" and "- 1022 \<le> e"
  shows "\<bar>toDouble x - x\<bar> \<le> pow2 (e - 53)"
proof -
  define q where "q = pow2 (exponent x - 52)"
  have qpos: "0 < q" by (simp add: q_def pow2_pos)
  from assms have "exponent x \<le> e" unfolding exponent_def by (rule exponentFrom_le)
  then have "q \<le> pow2 (e - 52)" unfolding q_def by (intro pow2_mono) simp
  also have "pow2 (e - 52) = 2 * pow2 (e - 53)"
    by (simp add: pow2_powi power_int_diff)
  finally have qle: "q / 2 \<le> pow2 (e - 53)" by simp
  have "toDouble x - x = (of_int (roundTiesToEven (x / q)) - x / q) * q"
    using qpos by (simp add: toDouble_def q_def[symmetric] Let_def field_simps)
  then have "\<bar>toDouble x - x\<bar> = \<bar>of_int (roundTiesToEven (x / q)) - x / q\<bar> * q"
    using qpos by (simp add: abs_mult)
  also have "\<dots> \<le> 1 / 2 * q"
    using roundTiesToEven_error[of "x / q"] qpos by (intro mult_right_mono) simp_all
  finally show ?thesis using qle by simp
qed

text \<open>
  The products of the tolerances 20, 40, 60 and 80 with the double 2.55 fall half a unit
  in the last place, or less, below the integers 51, 102, 153 and 204, and round to them.
\<close>

lemma threshold_multiples:
  "mulD 0 (toDouble 2.55) = 0" "mulD 20 (toDouble 2.55) = 51" "mulD 40 (toDouble 2.55) = 102"
  "mulD 60 (toDouble 2.55) = 153" "mulD 80 (toDouble 2.55) = 204"
proof -
  show "mulD 0 (toDouble 2.55) = 0" by (simp add: mulD_def toDouble_zero)
  show "mulD 20 (toDouble 2.55) = 51"
    unfolding toDouble_2_55 mulD_def
    using toDouble_tie[of 5 "20 * (5742089524897382 / 2 ^ 51)" 7177611906121728]
    by (simp add: pow2_def)
  show "mulD 40 (toDouble 2.55) = 102"
    unfolding toDouble_2_55 mulD_def
    using toDouble_tie[of 6 "40 * (5742089524897382 / 2 ^ 51)" 7177611906121728]
    by (simp add: pow2_def)
  show "mulD 60 (toDouble 2.55) = 153"
    unfolding toDouble_2_55 mulD_def
    using toDouble_eq[of 7 "60 * (5742089524897382 / 2 ^ 51)" 5383208929591296]
    by (simp add: pow2_def)
  show "mulD 80 (toDouble 2.55) = 204"
    unfolding toDouble_2_55 mulD_def
    using toDouble_tie[of 7 "80 * (5742089524897382 / 2 ^ 51)" 7177611906121728]
    by (simp add: pow2_def)
qed

lemma threshold_close:
  assumes "t \<le> 100"
  shows "\<bar>mulD (real t) (toDouble 2.55) - real t * 2.55\<bar> < 1 / 100"
proof -
  define x where "x = real t * (5742089524897382 / 2 ^ 51)"
  from assms have t: "real t \<le> 100" by simp
  have xb: "0 \<le> x" "x \<le> real t * 2.55" "real t * 2.55 - x \<le> 1 / 2 ^ 40"
  proof -
    show "0 \<le> x" by (simp add: x_def)
    have "x = real t * 2.55 - real t * (2 / (5 * 2 ^ 51))"
      by (simp add: x_def field_simps)
    moreover have "0 \<le> real t * (2 / (5 * 2 ^ 51))" by simp
    moreover have "real t * (2 / (5 * 2 ^ 51)) \<le> 100 * (2 / (5 * 2 ^ 51))"
      using t by (intro mult_right_mono) simp_all
    ultimately show "x \<le> real t * 2.55" "real t * 2.55 - x \<le> 1 / 2 ^ 40" by simp_all
  qed
  from xb(1,2) t have "\<bar>x\<bar> < pow2 (7 + 1)" by (simp add: pow2_def)
  from toDouble_error[OF this] have "\<bar>toDouble x - x\<bar> \<le> 1 / 2 ^ 46"
    by (simp add: pow2_def)
  with xb(2,3) have "\<bar>toDouble x - real t * 2.55\<bar> \<le> 1 / 2 ^ 46 + 1 / 2 ^ 40" by linarith
  then show ?thesis
    unfolding mulD_def toDouble_2_55 x_def[symmetric] by simp
qed

lemma threshold_exact:
  assumes "t \<le> 99"
  shows "(real d \<le> mulD (real t) (toDouble 2.55)) = (real d \<le> real t * 2.55)"
proof -
  from assms have c: "\<bar>mulD (real t) (toDouble 2.55) - real t * 2.55\<bar> < 1 / 100"
    by (intro threshold_close) simp
  consider (eq) "100 * d = 255 * t" | (lt) "100 * d < 255 * t" | (gt) "255 * t < 100 * d"
    by linarith
  then show ?thesis
  proof cases
    case eq
    then have "20 * d = 51 * t" by simp
    then have "t = 20 * (11 * d - 28 * t)" by linarith
    then obtain k where k: "t = 20 * k" ..
    with assms have "k \<le> 4" by simp
    then consider "k = 0" | "k = 1" | "k = 2" | "k = 3" | "k = 4" by linarith
    then have m: "mulD (real t) (toDouble 2.55) = real t * 2.55"
      using threshold_multiples by cases (simp_all add: k)
    show ?thesis unfolding m ..
  next
    case lt
    then have "20 * d < 51 * t" by simp
    then have "100 * d + 5 \<le> 255 * t" by linarith
    then have "real (100 * d + 5) \<le> real (255 * t)" by (rule of_nat_mono)
    then have "real d + 1 / 20 \<le> real t * 2.55" by simp
    with c show ?thesis by linarith
  next
    case gt
    then have "51 * t < 20 * d" by simp
    then have "255 * t + 5 \<le> 100 * d" by linarith
    then have "real (255 * t + 5) \<le> real (100 * d)" by (rule of_nat_mono)
    then have "real t * 2.55 + 1 / 20 \<le> real d" by simp
    with c show ?thesis by linarith
  qed
qed

lemma byte_difference: "\<exists>d. \<bar>real a - real b\<bar> = real d"
proof (cases "a \<le> b")
  case True
  then have "\<bar>real a - real b\<bar> = real (b - a)" by simp
  then show ?thesis ..
next
  case False
  then have "\<bar>real a - real b\<bar> = real (a - b)" by simp
  then show ?thesis ..
qed

lemma pixelSimilar_exact:
  assumes "t \<le> 99"
  shows "pixelSimilar srcData w (mulD (real t) (toDouble 2.55)) =
         pixelSimilar srcData w (real t * 2.55)"
proof (intro ext)
  fix x0 y0 x y
  have e: "\<And>a b. (\<bar>real a - real b\<bar> \<le> mulD (real t) (toDouble 2.55)) =
                  (\<bar>real a - real b\<bar> \<le> real t * 2.55)"
  proof -
    fix a b :: nat
    from byte_difference obtain d where "\<bar>real a - real b\<bar> = real d" by blast
    with threshold_exact[OF assms, of d]
    show "(\<bar>real a - real b\<bar> \<le> mulD (real t) (toDouble 2.55)) =
          (\<bar>real a - real b\<bar> \<le> real t * 2.55)" by simp
  qed
  show "pixelSimilar srcData w (mulD (real t) (toDouble 2.55)) x0 y0 x y =
        pixelSimilar srcData w (real t * 2.55) x0 y0 x y"
    by (simp only: pixelSimilar_def Let_def e)
qed

text \<open>
  C2 (as stated). The claim takes the threshold \<open>T = tolerance * 2.55\<close> exactly. At
  tolerance 100 that is 255, so on an image of a black pixel left of a white one the white
  pixel belongs to the region of the black seed. The fill leaves it out of the mask: the
  product the code computes is the double below 255.
\<close>

theorem performFloodFill_region_counterexample:
  "tolerance exContrast = 100 \<and>
   sourceImageData exContrast = Some [0, 0, 0, 255, 255, 255, 255, 255] \<and>
   (1, 0) \<in> region 2 1 (pixelSimilar [0, 0, 0, 255, 255, 255, 255, 255] 2 (100 * 2.55) 0 0) (0, 0) \<and>
   performFloodFill 0 0 exContrast =
     Some (captureSnapshot (exContrast\<lparr>maskCanvases := [''fg'' \<mapsto> exLeft]\<rparr>)) \<and>
   getPixel exLeft 1 0 = transparent \<and> transparent \<noteq> white"
proof -
  have "(0, 0) \<in> region 2 1 (pixelSimilar [0, 0, 0, 255, 255, 255, 255, 255] 2 (100 * 2.55) 0 0) (0, 0)"
    by (rule region_seed)
  then have "(1, 0) \<in> region 2 1 (pixelSimilar [0, 0, 0, 255, 255, 255, 255, 255] 2 (100 * 2.55) 0 0) (0, 0)"
    by (rule region_step) (simp_all add: adjacent4_def pixelSimilar_def)
  then show ?thesis
    by (simp add: exContrast_fill ex_pixels) (simp add: exContrast_def transparent_def white_def)
qed

text \<open>
  C2 (amended). A fill whose seed, rounded down to a pixel, lies inside the image, with
  source samples at hand, turns exactly the 4-connected region of the seed under the
  tolerance predicate opaque white in the active layer's mask and leaves every other pixel
  of that mask, and every other mask, as it was; a seed outside the image changes nothing.
  The predicate compares R, G and B with the seed's colour in the source image, alpha
  ignored, against the threshold that the code computes: the product of the tolerance and
  2.55 in double precision. For a whole tolerance from 0 to 99 that predicate is the one
  of the exact product; at tolerance 100 the threshold is the double below 255.
\<close>

theorem performFloodFill_region:
  assumes "sourceImageData s = Some srcData"
    and "length srcData = 4 * (dimensions_width s * dimensions_height s)"
    and "maskCanvases s (activeLayerId s) = Some m"
    and "width m = dimensions_width s" and "height m = dimensions_height s"
    and "length (data m) = 4 * (dimensions_width s * dimensions_height s)"
  shows "(0 \<le> \<lfloor>X\<rfloor> \<and> \<lfloor>X\<rfloor> < int (dimensions_width s) \<and>
          0 \<le> \<lfloor>Y\<rfloor> \<and> \<lfloor>Y\<rfloor> < int (dimensions_height s) \<longrightarrow>
          (\<exists>s' m'. performFloodFill X Y s = Some s' \<and>
             maskCanvases s' = (maskCanvases s)(activeLayerId s \<mapsto> m') \<and>
             width m' = dimensions_width s \<and> height m' = dimensions_height s \<and>
             (\<forall>x<dimensions_width s. \<forall>y<dimensions_height s.
                getPixel m' x y =
                  (if (x, y) \<in> region (dimensions_width s) (dimensions_height s)
                                  (pixelSimilar srcData (dimensions_width s)
                                     (mulD (tolerance s) (toDouble 2.55))
                                     (nat \<lfloor>X\<rfloor>) (nat \<lfloor>Y\<rfloor>))
                                  (nat \<lfloor>X\<rfloor>, nat \<lfloor>Y\<rfloor>)
                   then white else getPixel m x y)))) \<and>
         (\<not> (0 \<le> \<lfloor>X\<rfloor> \<and> \<lfloor>X\<rfloor> < int (dimensions_width s) \<and>
              0 \<le> \<lfloor>Y\<rfloor> \<and> \<lfloor>Y\<rfloor> < int (dimensions_height s)) \<longrightarrow>
          performFloodFill X Y s = Some s) \<and>
         (\<forall>n\<le>99. tolerance s = real n \<longrightarrow>
            pixelSimilar srcData (dimensions_width s) (mulD (tolerance s) (toDouble 2.55)) =
            pixelSimilar srcData (dimensions_width s) (tolerance s * 2.55)) \<and>
         (tolerance s = 100 \<longrightarrow> mulD (tolerance s) (toDouble 2.55) = 255 - 1 / 2 ^ 45)"
proof (intro conjI impI allI)
  assume "0 \<le> \<lfloor>X\<rfloor> \<and> \<lfloor>X\<rfloor> < int (dimensions_width s) \<and>
          0 \<le> \<lfloor>Y\<rfloor> \<and> \<lfloor>Y\<rfloor> < int (dimensions_height s)"
  then have inb: "0 \<le> \<lfloor>X\<rfloor>" "\<lfloor>X\<rfloor> < int (dimensions_width s)"
             "0 \<le> \<lfloor>Y\<rfloor>" "\<lfloor>Y\<rfloor> < int (dimensions_height s)" by blast+
  from performFloodFill_pixels[OF assms inb]
  show "\<exists>s' m'. performFloodFill X Y s = Some s' \<and>
             maskCanvases s' = (maskCanvases s)(activeLayerId s \<mapsto> m') \<and>
             width m' = dimensions_width s \<and> height m' = dimensions_height s \<and>
             (\<forall>x<dimensions_width s. \<forall>y<dimensions_height s.
                getPixel m' x y =
                  (if (x, y) \<in> region (dimensions_width s) (dimensions_height s)
                                  (pixelSimilar srcData (dimensions_width s)
                                     (mulD (tolerance s) (toDouble 2.55))
                                     (nat \<lfloor>X\<rfloor>) (nat \<lfloor>Y\<rfloor>))
                                  (nat \<lfloor>X\<rfloor>, nat \<lfloor>Y\<rfloor>)
                   then white else getPixel m x y))"
    by blast
next
  assume "\<not> (0 \<le> \<lfloor>X\<rfloor> \<and> \<lfloor>X\<rfloor> < int (dimensions_width s) \<and>
              0 \<le> \<lfloor>Y\<rfloor> \<and> \<lfloor>Y\<rfloor> < int (dimensions_height s))"
  then show "performFloodFill X Y s = Some s" by (rule performFloodFill_outside)
next
  fix n :: nat
  assume "n \<le> 99" and "tolerance s = real n"
  then show "pixelSimilar srcData (dimensions_width s) (mulD (tolerance s) (toDouble 2.55)) =
             pixelSimilar srcData (dimensions_width s) (tolerance s * 2.55)"
    by (simp only: pixelSimilar_exact)
next
  assume "tolerance s = 100"
  then show "mulD (tolerance s) (toDouble 2.55) = 255 - 1 / 2 ^ 45"
    by (simp only: threshold_100)
qed

theorem performFloodFill_region_witness:
  "(\<exists>s' m'. performFloodFill 0 0 exContrast = Some s' \<and>
             maskCanvases s' ''fg'' = Some m' \<and> getPixel m' 0 0 = white \<and>
             getPixel m' 1 0 = transparent) \<and>
   performFloodFill (5 / 2) (1 / 5) exContrast = Some exContrast \<and>
   tolerance exContrast = 100 \<and>
   mulD (tolerance exContrast) (toDouble 2.55) = 255 - 1 / 2 ^ 45 \<and>
   tolerance exState = 30 \<and>
   pixelSimilar [10, 10, 10, 255, 200, 200, 200, 255] 2 (mulD (tolerance exState) (toDouble 2.55)) =
     pixelSimilar [10, 10, 10, 255, 200, 200, 200, 255] 2 (tolerance exState * 2.55)"
proof -
  let ?src = "[0, 0, 0, 255, 255, 255, 255, 255::nat]"
  have a: "sourceImageData exContrast = Some ?src"
    "length ?src = 4 * (dimensions_width exContrast * dimensions_height exContrast)"
    "maskCanvases exContrast (activeLayerId exContrast) = Some exBlank"
    "width exBlank = dimensions_width exContrast" "height exBlank = dimensions_height exContrast"
    "length (data exBlank) = 4 * (dimensions_width exContrast * dimensions_height exContrast)"
    by (simp_all add: exContrast_def exState_def exBlank_def)
  have f: "\<lfloor>0 :: real\<rfloor> = 0" "\<lfloor>1 / 5 :: real\<rfloor> = 0" "\<lfloor>5 / 2 :: real\<rfloor> = 2" by simp_all
  have d: "dimensions_width exContrast = 2" "dimensions_height exContrast = 1"
    "activeLayerId exContrast = ''fg''" "tolerance exContrast = 100"
    by (simp_all add: exContrast_def exState_def)
  from performFloodFill_region[OF a, of 0 0]
  obtain s' m' where r: "performFloodFill 0 0 exContrast = Some s'"
    "maskCanvases s' = (maskCanvases exContrast)(''fg'' \<mapsto> m')"
    and px: "\<forall>x<2. \<forall>y<1. getPixel m' x y =
               (if (x, y) \<in> region 2 1 (pixelSimilar ?src 2 (mulD 100 (toDouble 2.55)) 0 0) (0, 0)
                then white else getPixel exBlank x y)"
    unfolding f d by auto
  have "\<not> pixelSimilar ?src 2 (mulD 100 (toDouble 2.55)) 0 0 1 0"
    unfolding threshold_100 by (simp add: pixelSimilar_def)
  then have out: "(1, 0) \<notin> region 2 1 (pixelSimilar ?src 2 (mulD 100 (toDouble 2.55)) 0 0) (0, 0)"
    by (intro region_notin) simp_all
  from px have "getPixel m' 0 0 = white" by (simp add: region_seed)
  moreover from px out have "getPixel m' 1 0 = transparent" by (simp add: ex_pixels)
  ultimately have 1: "\<exists>s' m'. performFloodFill 0 0 exContrast = Some s' \<and>
             maskCanvases s' ''fg'' = Some m' \<and> getPixel m' 0 0 = white \<and>
             getPixel m' 1 0 = transparent" using r by simp
  from performFloodFill_region[OF a, of "5 / 2" "1 / 5"]
  have 2: "performFloodFill (5 / 2) (1 / 5) exContrast = Some exContrast"
    unfolding f d by simp
  from performFloodFill_region[OF a, of 0 0] d(4)
  have 3: "mulD (tolerance exContrast) (toDouble 2.55) = 255 - 1 / 2 ^ 45" by blast
  have b: "sourceImageData exState = Some [10, 10, 10, 255, 200, 200, 200, 255]"
    "length [10, 10, 10, 255, 200, 200, 200, 255::nat] =
       4 * (dimensions_width exState * dimensions_height exState)"
    "maskCanvases exState (activeLayerId exState) = Some exBlank"
    "width exBlank = dimensions_width exState" "height exBlank = dimensions_height exState"
    "length (data exBlank) = 4 * (dimensions_width exState * dimensions_height exState)"
    by (simp_all add: exState_def exBlank_def)
  have t: "tolerance exState = real 30" "(30::nat) \<le> 99" "dimensions_width exState = 2"
    by (simp_all add: exState_def)
  from performFloodFill_region[OF b, of 0 0] t(1,2)
  have "pixelSimilar [10, 10, 10, 255, 200, 200, 200, 255] (dimensions_width exState)
          (mulD (tolerance exState) (toDouble 2.55)) =
        pixelSimilar [10, 10, 10, 255, 200, 200, 200, 255] (dimensions_width exState)
          (tolerance exState * 2.55)"
    by blast
  then have 4: "pixelSimilar [10, 10, 10, 255, 200, 200, 200, 255] 2
                  (mulD (tolerance exState) (toDouble 2.55)) =
                pixelSimilar [10, 10, 10, 255, 200, 200, 200, 255] 2 (tolerance exState * 2.55)"
    unfolding t(3) .
  from t(1) have 5: "tolerance exState = 30" by simp
  from 1 2 3 4 5 d(4) show ?thesis by blast
qed

end
